theory Spec2Isabelle
  imports Main "HOL-Library.AList"
begin

section \<open>Data model\<close>

text \<open>
  The plugin talks to the Figma host through a handful of calls. Everything the host
  owns is a parameter of the model: the style registry, the page tree, the node lookup
  and the outcome of every call that may throw. A host call that throws returns
  \<open>Inl HostError\<close>; the \<^verbatim>\<open>try\<close>/\<^verbatim>\<open>catch\<close> blocks of the source are the case
  distinctions on that value.
\<close>

datatype error = HostError

text \<open>The string-literal union \<^verbatim>\<open>'FILL' | 'TEXT' | 'EFFECT' | 'GRID'\<close>.\<close>

datatype styleType = FILL | TEXT | EFFECT | GRID

text \<open>
  A property that the host may report as \<^verbatim>\<open>figma.mixed\<close> (a symbol) instead of a value.
  A style binding is a \<open>string mixable\<close>; \<open>None\<close> in a node field below means that the
  node type does not have the property at all (\<^verbatim>\<open>'fillStyleId' in node\<close> is false).
\<close>

datatype 'a mixable = Mixed | Val 'a

text \<open>Property values the plugin only copies (paints, fonts, effects, grids) are opaque.\<close>

type_synonym propval = string

record NodeProps =
  node_id :: string
  node_name :: string
  node_type :: string
  fillStyleId :: "string mixable option"
  strokeStyleId :: "string mixable option"
  textStyleId :: "string mixable option"
  effectStyleId :: "string mixable option"
  gridStyleId :: "string mixable option"
  fills :: "propval mixable option"
  fontSize :: "propval mixable"
  fontName :: "propval mixable"
  lineHeight :: "propval mixable"
  letterSpacing :: "propval mixable"
  textCase :: "propval mixable"
  textDecoration :: "propval mixable"
  effects :: "propval option"
  layoutGrids :: "propval option"

text \<open>
  A scene node: its own properties and, for container nodes, the list of children
  (\<open>None\<close> when \<^verbatim>\<open>'children' in node\<close> is false).
\<close>

datatype SceneNode = SceneNode (props: NodeProps) (children: "SceneNode list option")

text \<open>The elements of \<^verbatim>\<open>RemoteStyleInfo.layers\<close>.\<close>

record LayerInfo =
  layer_id :: string
  layer_name :: string
  layer_type :: string

record RemoteStyleInfo =
  styleId :: string
  styleName :: string
  styleType :: styleType
  layers :: "LayerInfo list"

record LocalStyleInfo =
  local_id :: string
  local_name :: string
  local_type :: styleType

text \<open>What the plugin reads of a style object returned by the host.\<close>

record BaseStyle =
  style_id :: string
  style_name :: string
  remote :: bool

text \<open>
  The part of the host that a scan reads: the style registry lookup (which may throw,
  return \<^verbatim>\<open>null\<close> or return a style), the children of the current page and the four
  local style collections.
\<close>

record figma =
  getStyleByIdAsync :: "string \<Rightarrow> error + BaseStyle option"
  currentPage_children :: "SceneNode list"
  getLocalPaintStylesAsync :: "BaseStyle list"
  getLocalTextStylesAsync :: "BaseStyle list"
  getLocalEffectStylesAsync :: "BaseStyle list"
  getLocalGridStylesAsync :: "BaseStyle list"

section \<open>The scan: \<^verbatim>\<open>findLayersWithRemoteStyles\<close>\<close>

text \<open>
  \<^verbatim>\<open>remoteStylesMap\<close> is a JavaScript \<^verbatim>\<open>Map\<close>: it iterates in insertion order, and
  \<^verbatim>\<open>set\<close> on a present key keeps the key's position. It is an association list with
  \<^const>\<open>AList.update\<close> (replace in place, else append) and \<^const>\<open>map_of\<close>. The working state
  of a scan also keeps the trace of the registry lookups it made.
\<close>

type_synonym remoteStylesMap = "(string \<times> RemoteStyleInfo) list"

record scan_state =
  remoteStylesMap :: remoteStylesMap
  lookups :: "string list"

text \<open>JavaScript truthiness of a binding: a symbol is truthy, a string unless it is empty.\<close>

fun truthy :: "string mixable \<Rightarrow> bool" where
  "truthy Mixed = True"
| "truthy (Val s) = (s \<noteq> [])"

definition layer_of :: "NodeProps \<Rightarrow> LayerInfo" where
  "layer_of node =
     \<lparr>layer_id = node_id node, layer_name = node_name node, layer_type = node_type node\<rparr>"

text \<open>
  The block that the three branches of \<^verbatim>\<open>checkStyle\<close> share (lines 64-78, 81-95 and
  99-113): create the entry unless the map has the key, then push the layer onto the
  entry's list.
\<close>

definition record_layer ::
  "NodeProps \<Rightarrow> string \<Rightarrow> string \<Rightarrow> styleType \<Rightarrow> remoteStylesMap \<Rightarrow> remoteStylesMap" where
  "record_layer node sid nm ty m =
     (let m1 = (if map_of m sid = None
                then AList.update sid
                       \<lparr>styleId = sid, styleName = nm, styleType = ty, layers = []\<rparr> m
                else m)
      in AList.map_entry sid (\<lambda>info. info\<lparr>layers := layers info @ [layer_of node]\<rparr>) m1)"

fun checkStyle ::
  "figma \<Rightarrow> NodeProps \<Rightarrow> string mixable \<Rightarrow> styleType \<Rightarrow> scan_state \<Rightarrow> scan_state" where
  "checkStyle h node Mixed ty st = st"
| "checkStyle h node (Val sid) ty st =
     (let st1 = st\<lparr>lookups := lookups st @ [sid]\<rparr> in
      case getStyleByIdAsync h sid of
        Inr None \<Rightarrow>
          st1\<lparr>remoteStylesMap :=
                record_layer node sid ''Unknown Style (Remote)'' ty (remoteStylesMap st1)\<rparr>
      | Inr (Some style) \<Rightarrow>
          if remote style
          then st1\<lparr>remoteStylesMap :=
                     record_layer node sid (style_name style) ty (remoteStylesMap st1)\<rparr>
          else st1
      | Inl e \<Rightarrow>
          st1\<lparr>remoteStylesMap :=
                record_layer node sid ''Unknown Style (Remote)'' ty (remoteStylesMap st1)\<rparr>)"

text \<open>
  One guarded call of \<^verbatim>\<open>traverse\<close>:
  \<^verbatim>\<open>if ('fillStyleId' in node && node.fillStyleId) await checkStyle(...)\<close>.
\<close>

definition check_binding ::
  "figma \<Rightarrow> NodeProps \<Rightarrow> string mixable option \<Rightarrow> styleType \<Rightarrow> scan_state \<Rightarrow> scan_state" where
  "check_binding h node b ty st =
     (case b of
        None \<Rightarrow> st
      | Some v \<Rightarrow> if truthy v then checkStyle h node v ty st else st)"

fun traverse :: "figma \<Rightarrow> SceneNode \<Rightarrow> scan_state \<Rightarrow> scan_state"
  and traverse_children :: "figma \<Rightarrow> SceneNode list \<Rightarrow> scan_state \<Rightarrow> scan_state" where
  "traverse h (SceneNode node cs) st =
     (let st1 = check_binding h node (fillStyleId node) FILL st;
          st2 = check_binding h node (strokeStyleId node) FILL st1;
          st3 = check_binding h node (textStyleId node) TEXT st2;
          st4 = check_binding h node (effectStyleId node) EFFECT st3;
          st5 = check_binding h node (gridStyleId node) GRID st4
      in case cs of
           None \<Rightarrow> st5
         | Some kids \<Rightarrow> traverse_children h kids st5)"
| "traverse_children h [] st = st"
| "traverse_children h (child # rest) st = traverse_children h rest (traverse h child st)"

definition scan :: "figma \<Rightarrow> scan_state" where
  "scan h = traverse_children h (currentPage_children h) \<lparr>remoteStylesMap = [], lookups = []\<rparr>"

definition findLayersWithRemoteStyles :: "figma \<Rightarrow> RemoteStyleInfo list" where
  "findLayersWithRemoteStyles h = map snd (remoteStylesMap (scan h))"

section \<open>The local style catalogue: \<^verbatim>\<open>getLocalStyles\<close>\<close>

text \<open>The body of each \<^verbatim>\<open>forEach\<close>: push the style unless its remote flag is set.\<close>

definition push_local :: "styleType \<Rightarrow> BaseStyle \<Rightarrow> LocalStyleInfo list \<Rightarrow> LocalStyleInfo list" where
  "push_local ty s styles =
     (if \<not> remote s
      then styles @ [\<lparr>local_id = style_id s, local_name = style_name s, local_type = ty\<rparr>]
      else styles)"

definition getLocalStyles :: "figma \<Rightarrow> LocalStyleInfo list" where
  "getLocalStyles h =
     (let styles0 = [];
          styles1 = fold (push_local FILL) (getLocalPaintStylesAsync h) styles0;
          styles2 = fold (push_local TEXT) (getLocalTextStylesAsync h) styles1;
          styles3 = fold (push_local EFFECT) (getLocalEffectStylesAsync h) styles2;
          styles4 = fold (push_local GRID) (getLocalGridStylesAsync h) styles3
      in styles4)"

section \<open>Rebinding: \<^verbatim>\<open>swapStyle\<close>\<close>

text \<open>
  The mutating operations resolve layers with \<^verbatim>\<open>figma.getNodeByIdAsync\<close> and write to
  the nodes they get. The document is the store of nodes by id together with the styles
  created so far; the behaviour of the host calls that may throw is a parameter:
  \<open>setStyleIdOk b node new\<close> tells whether the setter of binding \<open>b\<close> accepts \<open>new\<close> on
  \<open>node\<close> (it throws otherwise), \<open>createOk\<close> and \<open>assignOk\<close> do the same for the
  creation of a style and for an assignment to one of its properties, and \<open>nextStyleId\<close>
  is the identifier the host gives to the next style. A setter that returns has stored
  the identifier it was given. \<^verbatim>\<open>getNodeByIdAsync\<close> itself returns a node or \<^verbatim>\<open>null\<close>.
\<close>

datatype binding = FillB | StrokeB | TextB | EffectB | GridB

record NewStyle =
  new_id :: string
  new_type :: styleType
  assigned :: "(string \<times> propval) list"

record document =
  getNodeByIdAsync :: "string \<Rightarrow> NodeProps option"
  createdStyles :: "NewStyle list"

record host =
  setStyleIdOk :: "binding \<Rightarrow> NodeProps \<Rightarrow> string \<Rightarrow> bool"
  createOk :: "styleType \<Rightarrow> bool"
  assignOk :: "string \<Rightarrow> propval \<Rightarrow> bool"
  nextStyleId :: "nat \<Rightarrow> string"

fun get_binding :: "binding \<Rightarrow> NodeProps \<Rightarrow> string mixable option" where
  "get_binding FillB node = fillStyleId node"
| "get_binding StrokeB node = strokeStyleId node"
| "get_binding TextB node = textStyleId node"
| "get_binding EffectB node = effectStyleId node"
| "get_binding GridB node = gridStyleId node"

fun set_binding :: "binding \<Rightarrow> string \<Rightarrow> NodeProps \<Rightarrow> NodeProps" where
  "set_binding FillB new node = node\<lparr>fillStyleId := Some (Val new)\<rparr>"
| "set_binding StrokeB new node = node\<lparr>strokeStyleId := Some (Val new)\<rparr>"
| "set_binding TextB new node = node\<lparr>textStyleId := Some (Val new)\<rparr>"
| "set_binding EffectB new node = node\<lparr>effectStyleId := Some (Val new)\<rparr>"
| "set_binding GridB new node = node\<lparr>gridStyleId := Some (Val new)\<rparr>"

text \<open>
  One guarded statement of the \<^verbatim>\<open>try\<close> block,
  \<^verbatim>\<open>if ('fillStyleId' in node && node.fillStyleId === oldStyleId) { await node.setFillStyleIdAsync(newStyleId); count++; }\<close>,
  on the pair of the counter and the node. \<open>Inl\<close> is the throw, with the counter and
  the node as they were when the setter threw.
\<close>

definition rebind ::
  "host \<Rightarrow> binding \<Rightarrow> string \<Rightarrow> string \<Rightarrow> nat \<times> NodeProps
     \<Rightarrow> (nat \<times> NodeProps) + (nat \<times> NodeProps)" where
  "rebind hst b oldStyleId newStyleId cn =
     (case cn of (count, node) \<Rightarrow>
        if get_binding b node = Some (Val oldStyleId)
        then (if setStyleIdOk hst b node newStyleId
              then Inr (Suc count, set_binding b newStyleId node)
              else Inl (count, node))
        else Inr (count, node))"

text \<open>
  The \<^verbatim>\<open>try\<close>/\<^verbatim>\<open>catch\<close> of one iteration. The result is the counter, the node and whether
  the \<^verbatim>\<open>catch\<close> ran (\<^verbatim>\<open>console.error\<close>).
\<close>

definition swap_layer ::
  "host \<Rightarrow> string \<Rightarrow> string \<Rightarrow> string \<Rightarrow> nat \<times> NodeProps \<Rightarrow> (nat \<times> NodeProps) \<times> bool" where
  "swap_layer hst oldStyleId newStyleId ty cn =
     (if ty = ''FILL'' then
        (case rebind hst FillB oldStyleId newStyleId cn of
           Inl cn1 \<Rightarrow> (cn1, True)
         | Inr cn1 \<Rightarrow>
            (case rebind hst StrokeB oldStyleId newStyleId cn1 of
               Inl cn2 \<Rightarrow> (cn2, True)
             | Inr cn2 \<Rightarrow> (cn2, False)))
      else if ty = ''TEXT'' then
        (case rebind hst TextB oldStyleId newStyleId cn of
           Inl cn1 \<Rightarrow> (cn1, True)
         | Inr cn1 \<Rightarrow> (cn1, False))
      else if ty = ''EFFECT'' then
        (case rebind hst EffectB oldStyleId newStyleId cn of
           Inl cn1 \<Rightarrow> (cn1, True)
         | Inr cn1 \<Rightarrow> (cn1, False))
      else if ty = ''GRID'' then
        (case rebind hst GridB oldStyleId newStyleId cn of
           Inl cn1 \<Rightarrow> (cn1, True)
         | Inr cn1 \<Rightarrow> (cn1, False))
      else (cn, False))"

text \<open>
  The loop over \<^verbatim>\<open>layerIds\<close>, on the counter, the document and the list of the layer
  ids at which an error was logged.
\<close>

fun swapStyle_loop ::
  "host \<Rightarrow> string list \<Rightarrow> string \<Rightarrow> string \<Rightarrow> string \<Rightarrow> nat \<times> document \<times> string list
     \<Rightarrow> nat \<times> document \<times> string list" where
  "swapStyle_loop hst [] oldStyleId newStyleId ty acc = acc"
| "swapStyle_loop hst (i # ids) oldStyleId newStyleId ty (count, d, errs) =
     (case getNodeByIdAsync d i of
        None \<Rightarrow> swapStyle_loop hst ids oldStyleId newStyleId ty (count, d, errs)
      | Some node \<Rightarrow>
         (case swap_layer hst oldStyleId newStyleId ty (count, node) of
            ((count1, node1), threw) \<Rightarrow>
              swapStyle_loop hst ids oldStyleId newStyleId ty
                (count1,
                 d\<lparr>getNodeByIdAsync := (getNodeByIdAsync d)(i \<mapsto> node1)\<rparr>,
                 if threw then errs @ [i] else errs)))"

definition swapStyle ::
  "host \<Rightarrow> document \<Rightarrow> string list \<Rightarrow> string \<Rightarrow> string \<Rightarrow> string
     \<Rightarrow> nat \<times> document \<times> string list" where
  "swapStyle hst d layerIds oldStyleId newStyleId ty =
     swapStyle_loop hst layerIds oldStyleId newStyleId ty (0, d, [])"

section \<open>Materialising a remote style: \<^verbatim>\<open>importRemoteStyle\<close>\<close>

text \<open>
  \<^verbatim>\<open>figma.createPaintStyle()\<close> and its siblings add a style to the document and return
  it; the variable \<^verbatim>\<open>newStyle\<close> holds the identifier of the style it refers to.
\<close>

definition createStyle :: "host \<Rightarrow> styleType \<Rightarrow> document \<Rightarrow> string \<times> document" where
  "createStyle hst ty d =
     (let sid = nextStyleId hst (length (createdStyles d))
      in (sid, d\<lparr>createdStyles := createdStyles d @ [\<lparr>new_id = sid, new_type = ty, assigned = []\<rparr>]\<rparr>))"

text \<open>An assignment \<^verbatim>\<open>newStyle.p = v\<close> that the host accepted, on the style created last.\<close>

definition set_prop :: "string \<Rightarrow> propval \<Rightarrow> document \<Rightarrow> document" where
  "set_prop p v d =
     (case rev (createdStyles d) of
        [] \<Rightarrow> d
      | s # before \<Rightarrow>
          d\<lparr>createdStyles := rev before @ [s\<lparr>assigned := assigned s @ [(p, v)]\<rparr>]\<rparr>)"

text \<open>The assignments in order; the first one the host rejects throws.\<close>

fun assign_all :: "host \<Rightarrow> (string \<times> propval) list \<Rightarrow> document \<Rightarrow> bool \<times> document" where
  "assign_all hst [] d = (True, d)"
| "assign_all hst ((p, v) # rest) d =
     (if assignOk hst p v then assign_all hst rest (set_prop p v d) else (False, d))"

datatype outcome = Break | Next | Caught

text \<open>
  The body of a qualifying branch: create the style, assign it to \<^verbatim>\<open>newStyle\<close>, name
  it, copy the properties, \<^verbatim>\<open>break\<close>. A throw leaves the branch for the \<^verbatim>\<open>catch\<close>, and
  the loop goes on with \<^verbatim>\<open>newStyle\<close> as it is then.
\<close>

definition create_and_copy ::
  "host \<Rightarrow> styleType \<Rightarrow> string \<Rightarrow> (string \<times> propval) list \<Rightarrow> string option \<times> document
     \<Rightarrow> outcome \<times> string option \<times> document" where
  "create_and_copy hst ty sname ps nd =
     (case nd of (newStyle, d) \<Rightarrow>
        if \<not> createOk hst ty then (Caught, newStyle, d)
        else (case createStyle hst ty d of (sid, d1) \<Rightarrow>
               (case assign_all hst ((''name'', sname) # ps) d1 of
                  (True, d2) \<Rightarrow> (Break, Some sid, d2)
                | (False, d2) \<Rightarrow> (Caught, Some sid, d2))))"

definition try_import ::
  "host \<Rightarrow> string \<Rightarrow> string \<Rightarrow> NodeProps \<Rightarrow> string option \<times> document
     \<Rightarrow> outcome \<times> string option \<times> document" where
  "try_import hst ty sname node nd =
     (if ty = ''FILL'' \<and> fills node \<noteq> None then
        (case fills node of
           Some (Val paints) \<Rightarrow> create_and_copy hst FILL sname [(''paints'', paints)] nd
         | _ \<Rightarrow> (Next, nd))
      else if ty = ''TEXT'' \<and> node_type node = ''TEXT'' then
        (case (fontSize node, fontName node, lineHeight node,
               letterSpacing node, textCase node, textDecoration node) of
           (Val fs, Val fn, Val lh, Val ls, Val tc, Val td) \<Rightarrow>
             create_and_copy hst TEXT sname
               [(''fontSize'', fs), (''fontName'', fn), (''lineHeight'', lh),
                (''letterSpacing'', ls), (''textCase'', tc), (''textDecoration'', td)] nd
         | _ \<Rightarrow> (Next, nd))
      else if ty = ''EFFECT'' \<and> effects node \<noteq> None then
        (case effects node of
           Some es \<Rightarrow> create_and_copy hst EFFECT sname [(''effects'', es)] nd
         | None \<Rightarrow> (Next, nd))
      else if ty = ''GRID'' \<and> layoutGrids node \<noteq> None then
        (case layoutGrids node of
           Some gs \<Rightarrow> create_and_copy hst GRID sname [(''layoutGrids'', gs)] nd
         | None \<Rightarrow> (Next, nd))
      else (Next, nd))"

fun import_loop ::
  "host \<Rightarrow> string list \<Rightarrow> string \<Rightarrow> string \<Rightarrow> string option \<times> document \<times> string list
     \<Rightarrow> string option \<times> document \<times> string list" where
  "import_loop hst [] ty sname acc = acc"
| "import_loop hst (i # ids) ty sname (newStyle, d, errs) =
     (case getNodeByIdAsync d i of
        None \<Rightarrow> import_loop hst ids ty sname (newStyle, d, errs)
      | Some node \<Rightarrow>
         (case try_import hst ty sname node (newStyle, d) of
            (Break, newStyle1, d1) \<Rightarrow> (newStyle1, d1, errs)
          | (Next, newStyle1, d1) \<Rightarrow> import_loop hst ids ty sname (newStyle1, d1, errs)
          | (Caught, newStyle1, d1) \<Rightarrow>
              import_loop hst ids ty sname (newStyle1, d1, errs @ [i])))"

definition importRemoteStyle ::
  "host \<Rightarrow> document \<Rightarrow> string list \<Rightarrow> string \<Rightarrow> string \<Rightarrow> string
     \<Rightarrow> nat \<times> document \<times> string list" where
  "importRemoteStyle hst d layerIds ty sname oldStyleId =
     (case import_loop hst layerIds ty sname (None, d, []) of
        (newStyle, d1, errs) \<Rightarrow>
          (case newStyle of
             Some sid \<Rightarrow>
               (case swapStyle hst d1 layerIds oldStyleId sid ty of
                  (count, d2, errs2) \<Rightarrow> (count, d2, errs @ errs2))
           | None \<Rightarrow> (0, d1, errs)))"

section \<open>The scan result posted to the user interface\<close>

text \<open>
  The payload of the \<^verbatim>\<open>scan-result\<close> message that every scan ends with (lines 277-284,
  292-298, 305-311 and 319-325).
\<close>

record ScanResult =
  remoteStyles :: "RemoteStyleInfo list"
  localStyles :: "LocalStyleInfo list"

definition scan_result :: "figma \<Rightarrow> ScanResult" where
  "scan_result h =
     \<lparr>remoteStyles = findLayersWithRemoteStyles h, localStyles = getLocalStyles h\<rparr>"

section \<open>A session of scans\<close>

text \<open>
  The plugin handles one message at a time, and a run starts in the state that the runs
  before it left. A session holds that state: the document, the working state of the
  last scan (its map and the trace of lookups so far), the array of the last catalogue
  and the messages posted to the user interface. A run of
  \<^verbatim>\<open>findLayersWithRemoteStyles\<close> binds \<^verbatim>\<open>remoteStylesMap\<close> to a new \<^verbatim>\<open>Map\<close> (line 24) and a run
  of \<^verbatim>\<open>getLocalStyles\<close> binds \<^verbatim>\<open>styles\<close> to a new array (line 125) before anything else;
  \<open>scan_message\<close> is the handling of a \<^verbatim>\<open>scan\<close> message (lines 276-284), which is also
  the scan at the start of the session (lines 318-326).
\<close>

record session =
  figma_state :: figma
  scan_vars :: scan_state
  styles_var :: "LocalStyleInfo list"
  ui_messages :: "ScanResult list"

definition findLayersWithRemoteStyles_run ::
  "figma \<Rightarrow> scan_state \<Rightarrow> RemoteStyleInfo list \<times> scan_state" where
  "findLayersWithRemoteStyles_run h st =
     (let st0 = st\<lparr>remoteStylesMap := []\<rparr>;
          st1 = traverse_children h (currentPage_children h) st0
      in (map snd (remoteStylesMap st1), st1))"

definition getLocalStyles_run ::
  "figma \<Rightarrow> LocalStyleInfo list \<Rightarrow> LocalStyleInfo list \<times> LocalStyleInfo list" where
  "getLocalStyles_run h styles_before =
     (let styles0 = [];
          styles1 = fold (push_local FILL) (getLocalPaintStylesAsync h) styles0;
          styles2 = fold (push_local TEXT) (getLocalTextStylesAsync h) styles1;
          styles3 = fold (push_local EFFECT) (getLocalEffectStylesAsync h) styles2;
          styles4 = fold (push_local GRID) (getLocalGridStylesAsync h) styles3
      in (styles4, styles4))"

definition scan_message :: "session \<Rightarrow> session" where
  "scan_message s =
     (case findLayersWithRemoteStyles_run (figma_state s) (scan_vars s) of
        (remote_report, vars) \<Rightarrow>
          (case getLocalStyles_run (figma_state s) (styles_var s) of
             (local_report, styles) \<Rightarrow>
               s\<lparr>scan_vars := vars, styles_var := styles,
                 ui_messages := ui_messages s @ [\<lparr>remoteStyles = remote_report, localStyles = local_report\<rparr>]\<rparr>))"

section \<open>Vocabulary of the specification\<close>

text \<open>
  The classification of an identifier by the style resolver, in the words of the
  specification: a lookup that yields nothing or fails is unresolvable, a style whose
  remote flag is set is remote, any other style is local.
\<close>

datatype classification = Local string | RemoteFlagged string | Unresolvable

definition classify :: "figma \<Rightarrow> string \<Rightarrow> classification" where
  "classify h sid =
     (case getStyleByIdAsync h sid of
        Inl e \<Rightarrow> Unresolvable
      | Inr None \<Rightarrow> Unresolvable
      | Inr (Some style) \<Rightarrow>
          if remote style then RemoteFlagged (style_name style) else Local (style_name style))"

definition nonlocal :: "figma \<Rightarrow> string \<Rightarrow> bool" where
  "nonlocal h sid = (case classify h sid of Local nm \<Rightarrow> False | _ \<Rightarrow> True)"

definition entry_name :: "figma \<Rightarrow> string \<Rightarrow> string" where
  "entry_name h sid =
     (case classify h sid of RemoteFlagged nm \<Rightarrow> nm | _ \<Rightarrow> ''Unknown Style (Remote)'')"

text \<open>
  The bindings that a depth-first, pre-order walk presents to the resolver, in the order
  of the walk: for each node its fill, stroke, text, effect and grid binding, where the
  node has the property and the value is not empty; then its children, left to right.
\<close>

type_synonym reference = "NodeProps \<times> string mixable \<times> styleType"

definition binding_ref :: "NodeProps \<Rightarrow> string mixable option \<Rightarrow> styleType \<Rightarrow> reference list" where
  "binding_ref node b ty =
     (case b of None \<Rightarrow> [] | Some v \<Rightarrow> if truthy v then [(node, v, ty)] else [])"

definition node_refs :: "NodeProps \<Rightarrow> reference list" where
  "node_refs node =
     binding_ref node (fillStyleId node) FILL @
     binding_ref node (strokeStyleId node) FILL @
     binding_ref node (textStyleId node) TEXT @
     binding_ref node (effectStyleId node) EFFECT @
     binding_ref node (gridStyleId node) GRID"

fun refs :: "SceneNode \<Rightarrow> reference list"
  and refs_children :: "SceneNode list \<Rightarrow> reference list" where
  "refs (SceneNode node cs) =
     node_refs node @ (case cs of None \<Rightarrow> [] | Some kids \<Rightarrow> refs_children kids)"
| "refs_children [] = []"
| "refs_children (child # rest) = refs child @ refs_children rest"

text \<open>The nodes of the tree in the same order.\<close>

fun nodes_of :: "SceneNode \<Rightarrow> NodeProps list"
  and nodes_of_children :: "SceneNode list \<Rightarrow> NodeProps list" where
  "nodes_of (SceneNode node cs) =
     node # (case cs of None \<Rightarrow> [] | Some kids \<Rightarrow> nodes_of_children kids)"
| "nodes_of_children [] = []"
| "nodes_of_children (child # rest) = nodes_of child @ nodes_of_children rest"

text \<open>The identifier of a reference, if it is a string.\<close>

fun ref_ids :: "reference \<Rightarrow> string list" where
  "ref_ids (node, Val sid, ty) = [sid]"
| "ref_ids (node, Mixed, ty) = []"

definition style_refs :: "reference list \<Rightarrow> string list" where
  "style_refs rs = concat (map ref_ids rs)"

text \<open>The elements of a list in the order of their first occurrence.\<close>

primrec keep_first :: "'a list \<Rightarrow> 'a list \<Rightarrow> 'a list" where
  "keep_first seen [] = []"
| "keep_first seen (x # xs) =
     (if x \<in> set seen then keep_first seen xs else x # keep_first (x # seen) xs)"

definition first_occurrences :: "'a list \<Rightarrow> 'a list" where
  "first_occurrences xs = keep_first [] xs"

text \<open>The five bindings of a node, and how many of them hold a given identifier.\<close>

definition all_bindings :: "binding list" where
  "all_bindings = [FillB, StrokeB, TextB, EffectB, GridB]"

definition occurrences :: "string \<Rightarrow> NodeProps \<Rightarrow> nat" where
  "occurrences sid node =
     length (filter (\<lambda>b. get_binding b node = Some (Val sid)) all_bindings)"

text \<open>The layer records that a list of references contributes to the entry of \<open>sid\<close>.\<close>

fun ref_layer :: "string \<Rightarrow> reference \<Rightarrow> LayerInfo list" where
  "ref_layer sid (node, v, ty) = (if v = Val sid then [layer_of node] else [])"

definition layers_for :: "string \<Rightarrow> reference list \<Rightarrow> LayerInfo list" where
  "layers_for sid rs = concat (map (ref_layer sid) rs)"

text \<open>The layers recorded under a key of the working map (none if the key is absent).\<close>

definition layers_in :: "remoteStylesMap \<Rightarrow> string \<Rightarrow> LayerInfo list" where
  "layers_in m sid = (case map_of m sid of None \<Rightarrow> [] | Some info \<Rightarrow> layers info)"

text \<open>The effect of one \<^verbatim>\<open>checkStyle\<close> call on the working map.\<close>

fun map_step :: "figma \<Rightarrow> reference \<Rightarrow> remoteStylesMap \<Rightarrow> remoteStylesMap" where
  "map_step h (node, Mixed, ty) m = m"
| "map_step h (node, Val sid, ty) m =
     (if nonlocal h sid then record_layer node sid (entry_name h sid) ty m else m)"

definition run_ref :: "figma \<Rightarrow> reference \<Rightarrow> scan_state \<Rightarrow> scan_state" where
  "run_ref h r st = (case r of (node, v, ty) \<Rightarrow> checkStyle h node v ty st)"

text \<open>
  What every entry of the working map satisfies during a scan: it is filed under its own
  identifier, the identifier is not local, and the name is the one the resolver gives.
\<close>

definition entries_ok :: "figma \<Rightarrow> remoteStylesMap \<Rightarrow> bool" where
  "entries_ok h m \<longleftrightarrow>
     (\<forall>k info. map_of m k = Some info \<longrightarrow>
        styleId info = k \<and> styleName info = entry_name h k \<and> nonlocal h k)"

text \<open>
  A document in which every binding that holds \<^verbatim>\<open>figma.mixed\<close> is absent instead.
\<close>

fun drop_mixed :: "string mixable option \<Rightarrow> string mixable option" where
  "drop_mixed (Some Mixed) = None"
| "drop_mixed b = b"

definition unmix :: "NodeProps \<Rightarrow> NodeProps" where
  "unmix node =
     node\<lparr>fillStyleId := drop_mixed (fillStyleId node),
          strokeStyleId := drop_mixed (strokeStyleId node),
          textStyleId := drop_mixed (textStyleId node),
          effectStyleId := drop_mixed (effectStyleId node),
          gridStyleId := drop_mixed (gridStyleId node)\<rparr>"

fun unmix_tree :: "SceneNode \<Rightarrow> SceneNode"
  and unmix_children :: "SceneNode list \<Rightarrow> SceneNode list" where
  "unmix_tree (SceneNode node cs) =
     SceneNode (unmix node) (case cs of None \<Rightarrow> None | Some kids \<Rightarrow> Some (unmix_children kids))"
| "unmix_children [] = []"
| "unmix_children (child # rest) = unmix_tree child # unmix_children rest"

text \<open>The local style summary that the catalogue makes of a style of a given kind.\<close>

definition summary :: "styleType \<Rightarrow> BaseStyle \<Rightarrow> LocalStyleInfo" where
  "summary ty s = \<lparr>local_id = style_id s, local_name = style_name s, local_type = ty\<rparr>"

definition owned :: "BaseStyle list \<Rightarrow> BaseStyle list" where
  "owned styles = filter (\<lambda>s. \<not> remote s) styles"

text \<open>The kind under which \<^verbatim>\<open>traverse\<close> presents each binding to \<^verbatim>\<open>checkStyle\<close>.\<close>

fun binding_kind :: "binding \<Rightarrow> styleType" where
  "binding_kind FillB = FILL"
| "binding_kind StrokeB = FILL"
| "binding_kind TextB = TEXT"
| "binding_kind EffectB = EFFECT"
| "binding_kind GridB = GRID"

section \<open>Example documents\<close>

text \<open>A node with no style binding, no paints, effects or grids and no children.\<close>

definition plain_node :: "string \<Rightarrow> string \<Rightarrow> string \<Rightarrow> NodeProps" where
  "plain_node i nm ty =
     \<lparr>node_id = i, node_name = nm, node_type = ty,
      fillStyleId = None, strokeStyleId = None, textStyleId = None,
      effectStyleId = None, gridStyleId = None,
      fills = None,
      fontSize = Val [], fontName = Val [], lineHeight = Val [],
      letterSpacing = Val [], textCase = Val [], textDecoration = Val [],
      effects = None, layoutGrids = None\<rparr>"

text \<open>A rectangle whose fill and stroke are both bound to the style \<open>S:999\<close>.\<close>

definition rect_node :: NodeProps where
  "rect_node =
     (plain_node ''1:2'' ''Rectangle 1'' ''RECTANGLE'')
       \<lparr>fillStyleId := Some (Val ''S:999''), strokeStyleId := Some (Val ''S:999'')\<rparr>"

text \<open>A page with that rectangle, in a document whose registry does not know any style.\<close>

definition orphan_page :: figma where
  "orphan_page =
     \<lparr>getStyleByIdAsync = (\<lambda>sid. Inr None),
      currentPage_children = [SceneNode rect_node None],
      getLocalPaintStylesAsync = [], getLocalTextStylesAsync = [],
      getLocalEffectStylesAsync = [], getLocalGridStylesAsync = []\<rparr>"

text \<open>The same page on a host whose registry lookup throws.\<close>

definition faulty_page :: figma where
  "faulty_page = orphan_page\<lparr>getStyleByIdAsync := (\<lambda>sid. Inl HostError)\<rparr>"

text \<open>
  A page with a frame that holds a text layer and a rectangle. The frame and the
  rectangle are filled with \<open>S:999\<close>, which the registry does not know; the text uses
  \<open>S:777\<close>, a style of a library; the stroke of the rectangle is the local style \<open>S:111\<close>.
\<close>

definition frame_node :: NodeProps where
  "frame_node =
     (plain_node ''1:1'' ''Card'' ''FRAME'')
       \<lparr>fillStyleId := Some (Val ''S:999''), strokeStyleId := Some (Val []),
        gridStyleId := Some (Val [])\<rparr>"

definition text_node :: NodeProps where
  "text_node =
     (plain_node ''1:3'' ''Title'' ''TEXT'')
       \<lparr>fillStyleId := Some Mixed, textStyleId := Some (Val ''S:777'')\<rparr>"

definition box_node :: NodeProps where
  "box_node =
     (plain_node ''1:4'' ''Box'' ''RECTANGLE'')
       \<lparr>fillStyleId := Some (Val ''S:999''), strokeStyleId := Some (Val ''S:111'')\<rparr>"

definition sample_registry :: "string \<Rightarrow> error + BaseStyle option" where
  "sample_registry sid =
     (if sid = ''S:777''
      then Inr (Some \<lparr>style_id = ''S:777'', style_name = ''Heading'', remote = True\<rparr>)
      else if sid = ''S:111''
      then Inr (Some \<lparr>style_id = ''S:111'', style_name = ''Brand'', remote = False\<rparr>)
      else Inr None)"

definition sample_page :: figma where
  "sample_page =
     \<lparr>getStyleByIdAsync = sample_registry,
      currentPage_children =
        [SceneNode frame_node (Some [SceneNode text_node None, SceneNode box_node None])],
      getLocalPaintStylesAsync =
        [\<lparr>style_id = ''S:111'', style_name = ''Brand'', remote = False\<rparr>],
      getLocalTextStylesAsync = [], getLocalEffectStylesAsync = [],
      getLocalGridStylesAsync = []\<rparr>"

definition sample_entry :: RemoteStyleInfo where
  "sample_entry =
     \<lparr>styleId = ''S:999'', styleName = ''Unknown Style (Remote)'', styleType = FILL,
      layers = [\<lparr>layer_id = ''1:1'', layer_name = ''Card'', layer_type = ''FRAME''\<rparr>,
                \<lparr>layer_id = ''1:4'', layer_name = ''Box'', layer_type = ''RECTANGLE''\<rparr>]\<rparr>"

section \<open>Vocabulary for the rebinding\<close>

text \<open>The bindings that a rebind of a given kind looks at.\<close>

definition kind_bindings :: "string \<Rightarrow> binding list" where
  "kind_bindings ty =
     (if ty = ''FILL'' then [FillB, StrokeB]
      else if ty = ''TEXT'' then [TextB]
      else if ty = ''EFFECT'' then [EffectB]
      else if ty = ''GRID'' then [GridB]
      else [])"

text \<open>
  The value of a binding of the layer with a given id in a document (\<open>None\<close> if the id
  does not resolve), and the bindings of a layer whose value differs between two
  documents.
\<close>

definition binding_at :: "document \<Rightarrow> string \<Rightarrow> binding \<Rightarrow> string mixable option option" where
  "binding_at d i b = map_option (get_binding b) (getNodeByIdAsync d i)"


text \<open>
  The \<^verbatim>\<open>try\<close> block of one iteration as a walk over the bindings of the kind: the guarded
  setter statements in order, left at the first throw.
\<close>

fun rebind_all ::
  "host \<Rightarrow> binding list \<Rightarrow> string \<Rightarrow> string \<Rightarrow> nat \<times> NodeProps \<Rightarrow> (nat \<times> NodeProps) \<times> bool" where
  "rebind_all hst [] old new cn = (cn, False)"
| "rebind_all hst (b # bs) old new cn =
     (case rebind hst b old new cn of
        Inl cn1 \<Rightarrow> (cn1, True)
      | Inr cn1 \<Rightarrow> rebind_all hst bs old new cn1)"

text \<open>
  A host that accepts every update, and a document in which the ids \<open>1:1\<close>, \<open>1:2\<close>
  and \<open>1:4\<close> resolve to the frame, the rectangle and the box of the pages above.
\<close>

definition accepting_host :: host where
  "accepting_host =
     \<lparr>setStyleIdOk = (\<lambda>b node new. True), createOk = (\<lambda>ty. True),
      assignOk = (\<lambda>p v. True), nextStyleId = (\<lambda>n. ''S:new'')\<rparr>"

definition sample_document :: document where
  "sample_document =
     \<lparr>getNodeByIdAsync =
        map_of [(''1:1'', frame_node), (''1:2'', rect_node), (''1:4'', box_node)],
      createdStyles = []\<rparr>"

text \<open>That document after the fills and strokes bound to \<open>S:999\<close> were rebound to \<open>S:111\<close>.\<close>

definition swapped_document :: document where
  "swapped_document =
     sample_document\<lparr>getNodeByIdAsync :=
       (getNodeByIdAsync sample_document)
         (''1:2'' \<mapsto> rect_node\<lparr>fillStyleId := Some (Val ''S:111''),
                                 strokeStyleId := Some (Val ''S:111'')\<rparr>,
          ''1:4'' \<mapsto> box_node\<lparr>fillStyleId := Some (Val ''S:111'')\<rparr>)\<rparr>"



text \<open>
  A session on the sample page in which an earlier run has left a working map and a
  trace behind.
\<close>

definition stale_session :: session where
  "stale_session =
     \<lparr>figma_state = sample_page,
      scan_vars = \<lparr>remoteStylesMap = [(''S:000'', sample_entry)], lookups = [''S:000'']\<rparr>,
      styles_var = [\<lparr>local_id = ''S:000'', local_name = ''Old'', local_type = GRID\<rparr>],
      ui_messages = []\<rparr>"

section \<open>Vocabulary for the materialisation\<close>

text \<open>
  A layer qualifies as a donor for a kind when it exposes a fully determined source
  definition: paints that are not mixed for Fill; a text node whose font size, font,
  line height, letter spacing, text case and text decoration are all not mixed for
  Text; an effect list for Effect; a layout-grid list for Grid.
\<close>

definition qualifies :: "string \<Rightarrow> NodeProps \<Rightarrow> bool" where
  "qualifies ty node =
     (if ty = ''FILL'' then (case fills node of Some (Val paints) \<Rightarrow> True | _ \<Rightarrow> False)
      else if ty = ''TEXT'' then
        node_type node = ''TEXT'' \<and> fontSize node \<noteq> Mixed \<and> fontName node \<noteq> Mixed
        \<and> lineHeight node \<noteq> Mixed \<and> letterSpacing node \<noteq> Mixed
        \<and> textCase node \<noteq> Mixed \<and> textDecoration node \<noteq> Mixed
      else if ty = ''EFFECT'' then effects node \<noteq> None
      else if ty = ''GRID'' then layoutGrids node \<noteq> None
      else False)"

text \<open>
  Two text layers set in a font that the plugin has not loaded, bound to the library
  style \<open>S:777\<close>, on a host that rejects the assignment of an unloaded font to a style
  (the plugin loads Inter Regular only, at line 300).
\<close>

definition text_layer :: "string \<Rightarrow> string \<Rightarrow> NodeProps" where
  "text_layer i nm =
     (plain_node i nm ''TEXT'')
       \<lparr>textStyleId := Some (Val ''S:777''),
        fontSize := Val ''24'', fontName := Val ''Roboto Bold'', lineHeight := Val ''AUTO'',
        letterSpacing := Val ''0'', textCase := Val ''ORIGINAL'',
        textDecoration := Val ''NONE''\<rparr>"

definition text_document :: document where
  "text_document =
     \<lparr>getNodeByIdAsync =
        map_of [(''2:1'', text_layer ''2:1'' ''Title''), (''2:2'', text_layer ''2:2'' ''Body'')],
      createdStyles = []\<rparr>"

definition font_host :: host where
  "font_host =
     \<lparr>setStyleIdOk = (\<lambda>b node new. True), createOk = (\<lambda>ty. True),
      assignOk = (\<lambda>p v. if p = ''fontName'' then v = ''Inter Regular'' else True),
      nextStyleId = (\<lambda>n. if n = 0 then ''S:new1'' else ''S:new2'')\<rparr>"

section \<open>The scan as a fold over the references\<close>

lemma map_entry_keys: "map fst (AList.map_entry k f xs) = map fst xs"
  by (induct xs) auto

lemma record_layer_keys:
  "map fst (record_layer node sid nm ty m) =
     (if sid \<in> set (map fst m) then map fst m else map fst m @ [sid])"
  by (auto simp: record_layer_def Let_def map_entry_keys update_keys map_of_eq_None_iff)

lemma record_layer_map_of:
  "map_of (record_layer node sid nm ty m) =
     (map_of m)(sid \<mapsto>
        (case map_of m sid of
           None \<Rightarrow> \<lparr>styleId = sid, styleName = nm, styleType = ty, layers = [layer_of node]\<rparr>
         | Some info \<Rightarrow> info\<lparr>layers := layers info @ [layer_of node]\<rparr>))"
  by (auto simp: record_layer_def Let_def map_of_map_entry update_conv' fun_eq_iff)

lemma checkStyle_map:
  "remoteStylesMap (checkStyle h node v ty st) = map_step h (node, v, ty) (remoteStylesMap st)"
  by (cases v) (auto simp: Let_def nonlocal_def entry_name_def classify_def split: sum.splits option.splits)

lemma run_ref_map:
  "remoteStylesMap (run_ref h r st) = map_step h r (remoteStylesMap st)"
  by (cases r) (simp add: run_ref_def checkStyle_map)

lemma fold_run_ref_map:
  "remoteStylesMap (fold (run_ref h) rs st) = fold (map_step h) rs (remoteStylesMap st)"
  by (induction rs arbitrary: st) (simp_all add: run_ref_map)

lemma check_binding_fold:
  "check_binding h node b ty st = fold (run_ref h) (binding_ref node b ty) st"
  by (simp add: check_binding_def binding_ref_def run_ref_def split: option.splits)

lemma traverse_fold:
  "traverse h n st = fold (run_ref h) (refs n) st"
  "traverse_children h ns st = fold (run_ref h) (refs_children ns) st"
proof (induction h n st and h ns st rule: traverse_traverse_children.induct)
  case (1 h node cs st)
  show ?case
  proof (cases cs)
    case None
    then show ?thesis by (simp add: Let_def check_binding_fold node_refs_def)
  next
    case (Some kids)
    with 1 show ?thesis by (simp add: Let_def check_binding_fold node_refs_def)
  qed
next
  case (2 h st)
  show ?case by simp
next
  case (3 h child rest st)
  then show ?case by simp
qed

lemma refs_nodes:
  "refs n = concat (map node_refs (nodes_of n))"
  "refs_children ns = concat (map node_refs (nodes_of_children ns))"
  by (induction n and ns rule: refs_refs_children.induct) (auto split: option.splits)

section \<open>Keys, layers and names of the working map\<close>

lemma keep_first_cong: "set a = set b \<Longrightarrow> keep_first a xs = keep_first b xs"
proof (induction xs arbitrary: a b)
  case Nil
  show ?case by simp
next
  case (Cons x xs)
  have "keep_first (x # a) xs = keep_first (x # b) xs"
    by (rule Cons.IH) (simp add: Cons.prems)
  moreover have "keep_first a xs = keep_first b xs"
    by (rule Cons.IH) (rule Cons.prems)
  ultimately show ?case using Cons.prems by simp
qed

lemma keep_first_set: "set (keep_first seen xs) = set xs - set seen"
  by (induction xs arbitrary: seen) auto

lemma keep_first_distinct: "distinct (keep_first seen xs)"
  by (induction xs arbitrary: seen) (auto simp: keep_first_set)

lemma map_step_keys:
  "map fst (map_step h r m) =
     map fst m @ keep_first (map fst m) (filter (nonlocal h) (ref_ids r))"
proof -
  obtain node v ty where r: "r = (node, v, ty)" by (cases r)
  show ?thesis by (cases v) (simp_all add: r record_layer_keys)
qed

lemma fold_map_step_keys:
  "map fst (fold (map_step h) rs m) =
     map fst m @ keep_first (map fst m) (filter (nonlocal h) (style_refs rs))"
proof (induction rs arbitrary: m)
  case Nil
  show ?case by (simp add: style_refs_def)
next
  case (Cons r rs)
  obtain node v ty where r: "r = (node, v, ty)" by (cases r)
  show ?case
  proof (cases v)
    case Mixed
    then show ?thesis using Cons.IH [of m] by (simp add: r style_refs_def)
  next
    case (Val sid)
    show ?thesis
    proof (cases "nonlocal h sid \<and> sid \<notin> set (map fst m)")
      case True
      have "keep_first (map fst m @ [sid]) (filter (nonlocal h) (style_refs rs))
            = keep_first (sid # map fst m) (filter (nonlocal h) (style_refs rs))"
        by (rule keep_first_cong) auto
      then show ?thesis
        using True Cons.IH [of "map_step h r m"]
        by (simp add: r Val style_refs_def record_layer_keys)
    next
      case False
      then show ?thesis
        using Cons.IH [of "map_step h r m"]
        by (auto simp: r Val style_refs_def record_layer_keys)
    qed
  qed
qed

lemma map_step_layers:
  "layers_in (map_step h r m) sid =
     layers_in m sid @ (if nonlocal h sid then ref_layer sid r else [])"
proof -
  obtain node v ty where r: "r = (node, v, ty)" by (cases r)
  show ?thesis
    by (cases v) (auto simp: r layers_in_def record_layer_map_of split: option.splits)
qed

lemma fold_map_step_layers:
  "layers_in (fold (map_step h) rs m) sid =
     layers_in m sid @ (if nonlocal h sid then layers_for sid rs else [])"
  by (induction rs arbitrary: m) (simp_all add: layers_for_def map_step_layers)

lemma map_step_entries_ok: "entries_ok h m \<Longrightarrow> entries_ok h (map_step h r m)"
proof -
  assume ok: "entries_ok h m"
  obtain node v ty where r: "r = (node, v, ty)" by (cases r)
  show ?thesis using ok
    by (cases v) (auto simp: r entries_ok_def record_layer_map_of split: option.splits if_splits)
qed

lemma fold_map_step_entries_ok:
  "entries_ok h m \<Longrightarrow> entries_ok h (fold (map_step h) rs m)"
  by (induction rs arbitrary: m) (simp_all add: map_step_entries_ok)

lemma entries_ok_empty: "entries_ok h []"
  by (simp add: entries_ok_def)

section \<open>Facts about a whole scan\<close>

lemma scan_map:
  "remoteStylesMap (scan h) = fold (map_step h) (refs_children (currentPage_children h)) []"
  by (simp add: scan_def traverse_fold fold_run_ref_map)

lemma scan_keys:
  "map fst (remoteStylesMap (scan h)) =
     first_occurrences (filter (nonlocal h) (style_refs (refs_children (currentPage_children h))))"
  by (simp add: scan_map fold_map_step_keys first_occurrences_def)

lemma scan_entries_ok: "entries_ok h (remoteStylesMap (scan h))"
  by (simp add: scan_map fold_map_step_entries_ok entries_ok_empty)

lemma scan_distinct_keys: "distinct (map fst (remoteStylesMap (scan h)))"
  by (simp add: scan_keys first_occurrences_def keep_first_distinct)

lemma scan_entry_key:
  assumes "(k, info) \<in> set (remoteStylesMap (scan h))"
  shows "styleId info = k" and "styleName info = entry_name h k" and "nonlocal h k"
    and "map_of (remoteStylesMap (scan h)) k = Some info"
proof -
  show m: "map_of (remoteStylesMap (scan h)) k = Some info"
    using assms scan_distinct_keys by simp
  show "styleId info = k" and "styleName info = entry_name h k" and "nonlocal h k"
    using m scan_entries_ok [of h] by (auto simp: entries_ok_def)
qed

lemma scan_styleIds:
  "map styleId (findLayersWithRemoteStyles h) = map fst (remoteStylesMap (scan h))"
  unfolding findLayersWithRemoteStyles_def map_map
  by (rule map_cong [OF refl]) (auto simp: scan_entry_key(1))

lemma scan_layers:
  "layers_in (remoteStylesMap (scan h)) sid =
     (if nonlocal h sid then layers_for sid (refs_children (currentPage_children h)) else [])"
proof -
  have "layers_in [] sid = []" by (simp add: layers_in_def)
  then show ?thesis by (simp add: scan_map fold_map_step_layers)
qed

section \<open>The reported list of remote styles\<close>

text \<open>
  C8: the reported \<open>remoteStyles\<close> list has exactly one entry for each distinct style
  identifier that is referenced by a binding of the page and is not local, and the
  entries are in first-insertion order: their identifiers are the non-local identifiers
  of the depth-first walk in the order of their first occurrence.
\<close>
theorem remoteStyles_first_insertion_order:
  "map styleId (findLayersWithRemoteStyles h) =
     first_occurrences
       (filter (nonlocal h) (style_refs (refs_children (currentPage_children h))))
   \<and> distinct (map styleId (findLayersWithRemoteStyles h))
   \<and> set (map styleId (findLayersWithRemoteStyles h)) =
       {sid \<in> set (style_refs (refs_children (currentPage_children h))). nonlocal h sid}"
proof -
  have "set (first_occurrences
          (filter (nonlocal h) (style_refs (refs_children (currentPage_children h))))) =
        {sid \<in> set (style_refs (refs_children (currentPage_children h))). nonlocal h sid}"
    by (auto simp: first_occurrences_def keep_first_set)
  then show ?thesis
    using scan_distinct_keys [of h] by (simp add: scan_styleIds scan_keys)
qed

section \<open>The catalogue of local styles\<close>

lemma fold_push_local:
  "fold (push_local ty) xs acc = acc @ map (summary ty) (owned xs)"
  by (induction xs arbitrary: acc) (simp_all add: push_local_def summary_def owned_def)

text \<open>
  C9: the catalogue of local styles holds exactly the styles of the four collections of
  the document whose remote flag is unset, each tagged with its kind, grouped by kind in
  the order Fill, Text, Effect, Grid and in the order of the collection within a kind.
\<close>
theorem getLocalStyles_catalogue:
  "getLocalStyles h =
     map (summary FILL) (owned (getLocalPaintStylesAsync h)) @
     map (summary TEXT) (owned (getLocalTextStylesAsync h)) @
     map (summary EFFECT) (owned (getLocalEffectStylesAsync h)) @
     map (summary GRID) (owned (getLocalGridStylesAsync h))"
  by (simp add: getLocalStyles_def fold_push_local)

section \<open>Bindings that hold the mixed symbol\<close>

lemma layer_of_unmix: "layer_of (unmix node) = layer_of node"
  by (simp add: layer_of_def unmix_def)

lemma record_layer_unmix: "record_layer (unmix node) sid nm ty m = record_layer node sid nm ty m"
  by (simp add: record_layer_def layer_of_unmix)

lemma checkStyle_unmix: "checkStyle h (unmix node) v ty st = checkStyle h node v ty st"
  by (cases v) (simp_all add: Let_def record_layer_unmix split: sum.splits option.splits)

lemma check_binding_unmix:
  "check_binding h (unmix node) (drop_mixed b) ty st = check_binding h node b ty st"
proof (cases b)
  case None
  then show ?thesis by (simp add: check_binding_def)
next
  case (Some v)
  show ?thesis
  proof (cases v)
    case Mixed
    with Some show ?thesis by (simp add: check_binding_def)
  next
    case (Val sid)
    with Some show ?thesis
      by (simp add: check_binding_def checkStyle_unmix del: checkStyle.simps)
  qed
qed

lemma traverse_unmix:
  "traverse h (unmix_tree n) st = traverse h n st"
  "traverse_children h (unmix_children ns) st = traverse_children h ns st"
proof (induction h n st and h ns st rule: traverse_traverse_children.induct)
  case (1 h node cs st)
  have b: "fillStyleId (unmix node) = drop_mixed (fillStyleId node)"
    "strokeStyleId (unmix node) = drop_mixed (strokeStyleId node)"
    "textStyleId (unmix node) = drop_mixed (textStyleId node)"
    "effectStyleId (unmix node) = drop_mixed (effectStyleId node)"
    "gridStyleId (unmix node) = drop_mixed (gridStyleId node)"
    by (simp_all add: unmix_def)
  show ?case
  proof (cases cs)
    case None
    then show ?thesis by (simp add: Let_def b check_binding_unmix)
  next
    case (Some kids)
    with 1 show ?thesis by (simp add: Let_def b check_binding_unmix)
  qed
next
  case (2 h st)
  show ?case by simp
next
  case (3 h child rest st)
  then show ?case by simp
qed

lemma run_ref_agree:
  assumes "\<forall>sid \<in> set (ref_ids r). getStyleByIdAsync h' sid = getStyleByIdAsync h sid"
  shows "run_ref h' r st = run_ref h r st"
proof -
  obtain node v ty where r: "r = (node, v, ty)" by (cases r)
  show ?thesis using assms by (cases v) (simp_all add: r run_ref_def)
qed

lemma fold_run_ref_agree:
  assumes "\<forall>sid \<in> set (style_refs rs). getStyleByIdAsync h' sid = getStyleByIdAsync h sid"
  shows "fold (run_ref h') rs st = fold (run_ref h) rs st"
  using assms
proof (induction rs arbitrary: st)
  case Nil
  show ?case by simp
next
  case (Cons r rs)
  have "run_ref h' r st = run_ref h r st"
    by (rule run_ref_agree) (use Cons.prems in \<open>simp add: style_refs_def\<close>)
  moreover have "fold (run_ref h') rs (run_ref h r st) = fold (run_ref h) rs (run_ref h r st)"
    by (rule Cons.IH) (use Cons.prems in \<open>simp add: style_refs_def\<close>)
  ultimately show ?case by simp
qed

lemma scan_agree:
  assumes "currentPage_children h' = currentPage_children h"
    and "\<forall>sid \<in> set (style_refs (refs_children (currentPage_children h))).
           getStyleByIdAsync h' sid = getStyleByIdAsync h sid"
  shows "scan h' = scan h"
proof -
  have "fold (run_ref h') (refs_children (currentPage_children h))
          \<lparr>remoteStylesMap = [], lookups = []\<rparr> =
        fold (run_ref h) (refs_children (currentPage_children h))
          \<lparr>remoteStylesMap = [], lookups = []\<rparr>"
    by (rule fold_run_ref_agree) (rule assms(2))
  then show ?thesis by (simp add: scan_def traverse_fold assms(1))
qed

lemma traverse_children_registry:
  "getStyleByIdAsync h' = getStyleByIdAsync h \<Longrightarrow>
     traverse_children h' ns st = traverse_children h ns st"
proof -
  assume "getStyleByIdAsync h' = getStyleByIdAsync h"
  then have "fold (run_ref h') (refs_children ns) st = fold (run_ref h) (refs_children ns) st"
    by (intro fold_run_ref_agree) simp
  then show ?thesis by (simp add: traverse_fold)
qed

text \<open>
  C10: a binding whose value is not a string (the \<^verbatim>\<open>figma.mixed\<close> symbol) is skipped:
  \<^verbatim>\<open>checkStyle\<close> returns the working state as it got it, with no registry lookup made,
  no entry created and no layer recorded; a scan ends in the same working state as on
  the document without these bindings.
\<close>
theorem mixed_binding_skipped:
  "checkStyle h node Mixed ty st = st
   \<and> scan (h\<lparr>currentPage_children := unmix_children (currentPage_children h)\<rparr>) = scan h"
proof -
  let ?h' = "h\<lparr>currentPage_children := unmix_children (currentPage_children h)\<rparr>"
  have "traverse_children ?h' (unmix_children (currentPage_children h))
          \<lparr>remoteStylesMap = [], lookups = []\<rparr> =
        traverse_children h (unmix_children (currentPage_children h))
          \<lparr>remoteStylesMap = [], lookups = []\<rparr>"
    by (rule traverse_children_registry) simp
  then show ?thesis by (simp add: scan_def traverse_unmix)
qed

section \<open>A registry lookup that throws\<close>

lemma node_refs_mem:
  "get_binding b node = Some v \<Longrightarrow> truthy v \<Longrightarrow> (node, v, binding_kind b) \<in> set (node_refs node)"
  by (cases b) (simp_all add: node_refs_def binding_ref_def)

lemma page_refs_mem:
  assumes "node \<in> set (nodes_of_children (currentPage_children h))"
    and "get_binding b node = Some (Val sid)" and "sid \<noteq> []"
  shows "(node, Val sid, binding_kind b) \<in> set (refs_children (currentPage_children h))"
  using assms node_refs_mem [of b node "Val sid"] by (auto simp: refs_nodes(2))

lemma style_refs_mem: "(node, Val sid, ty) \<in> set rs \<Longrightarrow> sid \<in> set (style_refs rs)"
  by (force simp: style_refs_def)

lemma layers_for_mem: "(node, Val sid, ty) \<in> set rs \<Longrightarrow> layer_of node \<in> set (layers_for sid rs)"
  by (force simp: layers_for_def)

lemma scan_entry_exists:
  assumes "sid \<in> set (style_refs (refs_children (currentPage_children h)))" and "nonlocal h sid"
  shows "\<exists>info. (sid, info) \<in> set (remoteStylesMap (scan h))"
proof -
  have "sid \<in> set (map fst (remoteStylesMap (scan h)))"
    using assms by (simp add: scan_keys first_occurrences_def keep_first_set)
  then show ?thesis by auto
qed

lemma scan_entry_layers:
  assumes "(k, info) \<in> set (remoteStylesMap (scan h))"
  shows "layers info = layers_for k (refs_children (currentPage_children h))"
proof -
  have "layers_in (remoteStylesMap (scan h)) k = layers info"
    using scan_entry_key(4) [OF assms] by (simp add: layers_in_def)
  then show ?thesis using scan_entry_key(3) [OF assms] by (simp add: scan_layers)
qed

lemma reported_entry:
  "info \<in> set (findLayersWithRemoteStyles h) \<longleftrightarrow>
     (styleId info, info) \<in> set (remoteStylesMap (scan h))"
proof
  assume "info \<in> set (findLayersWithRemoteStyles h)"
  then obtain k where k: "(k, info) \<in> set (remoteStylesMap (scan h))"
    by (auto simp: findLayersWithRemoteStyles_def)
  then show "(styleId info, info) \<in> set (remoteStylesMap (scan h))"
    using scan_entry_key(1) [OF k] by simp
next
  assume "(styleId info, info) \<in> set (remoteStylesMap (scan h))"
  then show "info \<in> set (findLayersWithRemoteStyles h)"
    by (force simp: findLayersWithRemoteStyles_def)
qed

lemma classify_throw: "getStyleByIdAsync h sid = Inl e \<Longrightarrow> classify h sid = Unresolvable"
  by (simp add: classify_def)

text \<open>
  C5: when the registry lookup throws for an identifier that a binding of a node of the
  page holds, the fault stays inside \<^verbatim>\<open>checkStyle\<close>: the identifier classifies as
  unresolvable, \<^verbatim>\<open>checkStyle\<close> returns the state it returns when the lookup yields
  nothing, and the scan reports an entry for the identifier with the name
  \<open>Unknown Style (Remote)\<close> whose layers contain the record of the node.
\<close>
theorem lookup_fault_is_remote:
  assumes "node \<in> set (nodes_of_children (currentPage_children h))"
    and "get_binding b node = Some (Val sid)" and "sid \<noteq> []"
    and "getStyleByIdAsync h sid = Inl e"
  shows "classify h sid = Unresolvable
    \<and> checkStyle h node (Val sid) ty st =
        checkStyle (h\<lparr>getStyleByIdAsync := (getStyleByIdAsync h)(sid := Inr None)\<rparr>)
          node (Val sid) ty st
    \<and> (\<exists>info. info \<in> set (findLayersWithRemoteStyles h) \<and> styleId info = sid
          \<and> styleName info = ''Unknown Style (Remote)''
          \<and> layer_of node \<in> set (layers info))"
proof -
  let ?rs = "refs_children (currentPage_children h)"
  have c: "classify h sid = Unresolvable" by (rule classify_throw) (rule assms(4))
  then have nl: "nonlocal h sid" and nm: "entry_name h sid = ''Unknown Style (Remote)''"
    by (simp_all add: nonlocal_def entry_name_def)
  have r: "(node, Val sid, binding_kind b) \<in> set ?rs"
    by (rule page_refs_mem) (rule assms)+
  obtain info where i: "(sid, info) \<in> set (remoteStylesMap (scan h))"
    using scan_entry_exists [OF style_refs_mem [OF r] nl] by blast
  have "info \<in> set (findLayersWithRemoteStyles h)"
    using i scan_entry_key(1) [OF i] by (simp add: reported_entry)
  moreover have "styleId info = sid" by (rule scan_entry_key(1) [OF i])
  moreover have "styleName info = ''Unknown Style (Remote)''"
    using scan_entry_key(2) [OF i] nm by simp
  moreover have "layer_of node \<in> set (layers info)"
    using layers_for_mem [OF r] by (simp add: scan_entry_layers [OF i])
  moreover have "checkStyle h node (Val sid) ty st =
        checkStyle (h\<lparr>getStyleByIdAsync := (getStyleByIdAsync h)(sid := Inr None)\<rparr>)
          node (Val sid) ty st"
    by (simp add: assms(4))
  ultimately show ?thesis using c by blast
qed

lemma rect_in_page: "rect_node \<in> set (nodes_of_children (currentPage_children faulty_page))"
  by (simp add: faulty_page_def orphan_page_def)

theorem lookup_fault_is_remote_witness:
  "classify faulty_page ''S:999'' = Unresolvable
    \<and> checkStyle faulty_page rect_node (Val ''S:999'') FILL \<lparr>remoteStylesMap = [], lookups = []\<rparr> =
        checkStyle (faulty_page\<lparr>getStyleByIdAsync := (getStyleByIdAsync faulty_page)(''S:999'' := Inr None)\<rparr>)
          rect_node (Val ''S:999'') FILL \<lparr>remoteStylesMap = [], lookups = []\<rparr>
    \<and> (\<exists>info. info \<in> set (findLayersWithRemoteStyles faulty_page) \<and> styleId info = ''S:999''
          \<and> styleName info = ''Unknown Style (Remote)''
          \<and> layer_of rect_node \<in> set (layers info))"
proof -
  have b: "get_binding StrokeB rect_node = Some (Val ''S:999'')"
    by (simp add: rect_node_def plain_node_def)
  have e: "getStyleByIdAsync faulty_page ''S:999'' = Inl HostError"
    by (simp add: faulty_page_def)
  have n: "''S:999'' \<noteq> []" by simp
  show ?thesis by (rule lookup_fault_is_remote [OF rect_in_page b n e])
qed

section \<open>How often a layer is recorded in an entry\<close>

lemma layers_for_append: "layers_for sid (rs @ rs') = layers_for sid rs @ layers_for sid rs'"
  by (simp add: layers_for_def)

lemma binding_ref_layer_ids:
  "map layer_id (layers_for sid (binding_ref node b ty)) =
     (if b = Some (Val sid) \<and> sid \<noteq> [] then [node_id node] else [])"
proof (cases b)
  case None
  then show ?thesis by (simp add: binding_ref_def layers_for_def)
next
  case (Some v)
  then show ?thesis
    by (cases v) (auto simp: binding_ref_def layers_for_def layer_of_def)
qed

lemma node_refs_layer_ids:
  assumes "sid \<noteq> []"
  shows "map layer_id (layers_for sid (node_refs node)) =
           replicate (occurrences sid node) (node_id node)"
  using assms
  by (simp add: node_refs_def layers_for_append binding_ref_layer_ids occurrences_def
      all_bindings_def)

lemma count_list_replicate_if:
  "count_list (replicate k x) i = (if x = i then k else 0)"
  by (induction k) auto

lemma sum_no_such_id:
  "\<forall>n \<in> set ns. node_id n \<noteq> i \<Longrightarrow>
     sum_list (map (\<lambda>n. if node_id n = i then f n else (0::nat)) ns) = 0"
  by (induction ns) auto

lemma page_layer_count:
  assumes "sid \<noteq> []"
  shows "count_list (map layer_id (layers_for sid (concat (map node_refs ns)))) i =
           sum_list (map (\<lambda>n. if node_id n = i then occurrences sid n else 0) ns)"
proof (induction ns)
  case Nil
  show ?case by (simp add: layers_for_def)
next
  case (Cons n ns)
  show ?case
    using Cons.IH
    by (simp add: layers_for_append node_refs_layer_ids [OF assms] count_list_replicate_if)
qed

lemma sum_at_distinct_id:
  assumes "distinct (map node_id ns)" and "node \<in> set ns"
  shows "sum_list (map (\<lambda>n. if node_id n = node_id node then f n else (0::nat)) ns) = f node"
  using assms
proof (induction ns)
  case Nil
  then show ?case by simp
next
  case (Cons n ns)
  show ?case
  proof (cases "n = node")
    case True
    have "node_id node \<notin> node_id ` set ns"
      using Cons.prems(1) True by simp
    then have "\<forall>n' \<in> set ns. node_id n' \<noteq> node_id node"
      by (metis imageI)
    then have "sum_list (map (\<lambda>n. if node_id n = node_id node then f n else 0) ns) = 0"
      by (rule sum_no_such_id)
    then show ?thesis using True by simp
  next
    case False
    then have "node \<in> set ns" using Cons.prems(2) by simp
    moreover have "node_id n \<noteq> node_id node"
      using Cons.prems(1) \<open>node \<in> set ns\<close> by auto
    ultimately show ?thesis using Cons by simp
  qed
qed

lemma sum_at_distinct_id_le:
  assumes "distinct (map node_id ns)" and "\<forall>n \<in> set ns. f n \<le> (1::nat)"
  shows "sum_list (map (\<lambda>n. if node_id n = i then f n else 0) ns) \<le> 1"
proof (cases "\<exists>node \<in> set ns. node_id node = i")
  case True
  then obtain node where n: "node \<in> set ns" "node_id node = i" by blast
  have "sum_list (map (\<lambda>n. if node_id n = i then f n else 0) ns) = f node"
    using sum_at_distinct_id [OF assms(1) n(1), of f] n(2) by simp
  moreover have "f node \<le> 1" using assms(2) n(1) by blast
  ultimately show ?thesis by linarith
next
  case False
  then have "sum_list (map (\<lambda>n. if node_id n = i then f n else 0) ns) = 0"
    by (intro sum_no_such_id) blast
  then show ?thesis by linarith
qed

lemma count_le_1_distinct: "(\<forall>a. count_list xs a \<le> 1) \<Longrightarrow> distinct xs"
proof (induction xs)
  case Nil
  show ?case by simp
next
  case (Cons x xs)
  have "count_list xs x = 0" using Cons.prems [rule_format, of x] by simp
  then have "x \<notin> set xs" by (simp add: count_list_0_iff)
  moreover have "\<forall>a. count_list xs a \<le> 1"
  proof
    fix a show "count_list xs a \<le> 1"
      using Cons.prems [rule_format, of a] by (simp split: if_splits)
  qed
  ultimately show ?case using Cons.IH by simp
qed

lemma reported_entry_nonempty_id:
  assumes "info \<in> set (findLayersWithRemoteStyles h)"
  shows "styleId info \<noteq> []"
proof -
  have "styleId info \<in> set (map styleId (findLayersWithRemoteStyles h))"
    using assms by simp
  then have "styleId info \<in> set (style_refs (refs_children (currentPage_children h)))"
    by (simp add: scan_styleIds scan_keys first_occurrences_def keep_first_set)
  then obtain node v ty where r: "(node, v, ty) \<in> set (refs_children (currentPage_children h))"
    and v: "styleId info \<in> set (ref_ids (node, v, ty))"
    by (auto simp: style_refs_def)
  from r obtain n where "(node, v, ty) \<in> set (node_refs n)"
    by (auto simp: refs_nodes(2))
  then have "truthy v"
    by (auto simp: node_refs_def binding_ref_def split: option.splits if_splits)
  with v show ?thesis by (cases v) auto
qed

lemma reported_layer_count:
  assumes "info \<in> set (findLayersWithRemoteStyles h)"
  shows "count_list (map layer_id (layers info)) i =
           sum_list (map (\<lambda>n. if node_id n = i then occurrences (styleId info) n else 0)
             (nodes_of_children (currentPage_children h)))"
proof -
  have "(styleId info, info) \<in> set (remoteStylesMap (scan h))"
    using assms by (simp add: reported_entry)
  then have "layers info = layers_for (styleId info) (refs_children (currentPage_children h))"
    by (rule scan_entry_layers)
  then show ?thesis
    using page_layer_count [OF reported_entry_nonempty_id [OF assms]]
    by (simp add: refs_nodes(2))
qed

text \<open>
  C2: in a document whose nodes have distinct ids, a layer id occurs in the layers list
  of a reported entry once for each binding of that node that holds the identifier of
  the entry. The list has no duplicate layer id when no node holds the identifier in
  more than one binding; a node whose fill and stroke hold it is recorded twice.
\<close>

theorem layers_once_per_binding:
  assumes "distinct (map node_id (nodes_of_children (currentPage_children h)))"
    and "info \<in> set (findLayersWithRemoteStyles h)"
  shows "(\<forall>node \<in> set (nodes_of_children (currentPage_children h)).
            count_list (map layer_id (layers info)) (node_id node) =
              occurrences (styleId info) node)
     \<and> ((\<forall>node \<in> set (nodes_of_children (currentPage_children h)).
            occurrences (styleId info) node \<le> 1)
          \<longrightarrow> distinct (map layer_id (layers info)))"
proof (intro conjI ballI impI)
  fix node
  assume "node \<in> set (nodes_of_children (currentPage_children h))"
  then show "count_list (map layer_id (layers info)) (node_id node) =
               occurrences (styleId info) node"
    by (simp add: reported_layer_count [OF assms(2)] sum_at_distinct_id [OF assms(1)])
next
  assume le: "\<forall>node \<in> set (nodes_of_children (currentPage_children h)).
                occurrences (styleId info) node \<le> 1"
  show "distinct (map layer_id (layers info))"
  proof (rule count_le_1_distinct, rule allI)
    fix a
    have "count_list (map layer_id (layers info)) a =
            sum_list (map (\<lambda>n. if node_id n = a then occurrences (styleId info) n else 0)
              (nodes_of_children (currentPage_children h)))"
      by (rule reported_layer_count [OF assms(2)])
    also have "\<dots> \<le> 1"
      by (rule sum_at_distinct_id_le [OF assms(1) le])
    finally show "count_list (map layer_id (layers info)) a \<le> 1" .
  qed
qed

text \<open>
  The rectangle whose fill and stroke are both bound to the unknown style \<open>S:999\<close>
  is recorded twice in the one entry of the report.
\<close>

lemma orphan_page_report:
  "findLayersWithRemoteStyles orphan_page =
     [\<lparr>styleId = ''S:999'', styleName = ''Unknown Style (Remote)'', styleType = FILL,
       layers = [\<lparr>layer_id = ''1:2'', layer_name = ''Rectangle 1'', layer_type = ''RECTANGLE''\<rparr>,
                 \<lparr>layer_id = ''1:2'', layer_name = ''Rectangle 1'', layer_type = ''RECTANGLE''\<rparr>]\<rparr>]"
  by (simp add: findLayersWithRemoteStyles_def scan_def orphan_page_def rect_node_def
      plain_node_def check_binding_def record_layer_def layer_of_def Let_def)

theorem layers_duplicate_counterexample:
  "findLayersWithRemoteStyles orphan_page =
     [\<lparr>styleId = ''S:999'', styleName = ''Unknown Style (Remote)'', styleType = FILL,
       layers = [\<lparr>layer_id = ''1:2'', layer_name = ''Rectangle 1'', layer_type = ''RECTANGLE''\<rparr>,
                 \<lparr>layer_id = ''1:2'', layer_name = ''Rectangle 1'', layer_type = ''RECTANGLE''\<rparr>]\<rparr>]
   \<and> \<not> distinct (map layer_id (layers (hd (findLayersWithRemoteStyles orphan_page))))"
  by (simp add: orphan_page_report)


lemma sample_page_nodes:
  "nodes_of_children (currentPage_children sample_page) = [frame_node, text_node, box_node]"
  by (simp add: sample_page_def)

lemma sample_page_ids:
  "distinct (map node_id (nodes_of_children (currentPage_children sample_page)))"
  by (simp add: sample_page_nodes frame_node_def text_node_def box_node_def plain_node_def)

lemma sample_page_report:
  "findLayersWithRemoteStyles sample_page =
     [sample_entry,
      \<lparr>styleId = ''S:777'', styleName = ''Heading'', styleType = TEXT,
       layers = [\<lparr>layer_id = ''1:3'', layer_name = ''Title'', layer_type = ''TEXT''\<rparr>]\<rparr>]"
  by (simp add: findLayersWithRemoteStyles_def scan_def sample_page_def sample_registry_def
      sample_entry_def frame_node_def text_node_def box_node_def
      plain_node_def check_binding_def record_layer_def layer_of_def Let_def)

theorem layers_once_per_binding_witness:
  "distinct (map node_id (nodes_of_children (currentPage_children sample_page)))
   \<and> sample_entry \<in> set (findLayersWithRemoteStyles sample_page)
   \<and> occurrences (styleId sample_entry) frame_node \<le> 1
   \<and> occurrences (styleId sample_entry) text_node \<le> 1
   \<and> occurrences (styleId sample_entry) box_node \<le> 1
   \<and> count_list (map layer_id (layers sample_entry)) (node_id box_node) =
       occurrences (styleId sample_entry) box_node
   \<and> distinct (map layer_id (layers sample_entry))"
proof -
  have m: "sample_entry \<in> set (findLayersWithRemoteStyles sample_page)"
    by (simp add: sample_page_report)
  have o: "occurrences (styleId sample_entry) frame_node \<le> 1"
    "occurrences (styleId sample_entry) text_node \<le> 1"
    "occurrences (styleId sample_entry) box_node \<le> 1"
    by (simp_all add: occurrences_def all_bindings_def sample_entry_def frame_node_def
        text_node_def box_node_def plain_node_def)
  show ?thesis
    using layers_once_per_binding [OF sample_page_ids m] o sample_page_ids m
    by (simp add: sample_page_nodes)
qed

section \<open>One iteration of the rebinding loop\<close>

lemma get_set_binding:
  "get_binding b' (set_binding b new node) =
     (if b' = b then Some (Val new) else get_binding b' node)"
  by (cases b; cases b') simp_all

lemma swap_layer_rebind_all:
  "swap_layer hst old new ty cn = rebind_all hst (kind_bindings ty) old new cn"
  by (simp add: swap_layer_def kind_bindings_def split: sum.splits)


text \<open>The three outcomes of one guarded setter statement.\<close>

lemma rebind_Inl:
  assumes "rebind hst b old new (c, node) = Inl (c1, node1)"
  shows "c1 = c" and "node1 = node" and "get_binding b node = Some (Val old)"
  using assms by (auto simp: rebind_def split: if_splits)

lemma rebind_Inr:
  assumes "rebind hst b old new (c, node) = Inr (c1, node1)"
  shows "(c1 = c \<and> node1 = node \<and> get_binding b node \<noteq> Some (Val old))
       \<or> (c1 = Suc c \<and> node1 = set_binding b new node \<and> get_binding b node = Some (Val old))"
  using assms by (auto simp: rebind_def split: if_splits)

lemma rebind_no_match:
  "get_binding b node \<noteq> Some (Val old) \<Longrightarrow> rebind hst b old new (c, node) = Inr (c, node)"
  by (simp add: rebind_def)

lemma rebind_all_only_old_to_new:
  assumes "rebind_all hst bs old new (c, node) = ((c', node'), threw)"
    and "get_binding b node' \<noteq> get_binding b node"
  shows "get_binding b node = Some (Val old) \<and> get_binding b node' = Some (Val new)
         \<and> b \<in> set bs"
  using assms
proof (induction bs arbitrary: c node)
  case Nil
  then show ?case by simp
next
  case (Cons b0 bs)
  show ?case
  proof (cases "rebind hst b0 old new (c, node)")
    case (Inl cn1)
    then show ?thesis using Cons.prems rebind_Inl [of hst b0 old new c node "fst cn1" "snd cn1"]
      by simp
  next
    case (Inr cn1)
    obtain c1 node1 where cn1: "cn1 = (c1, node1)" by (cases cn1)
    have rest: "rebind_all hst bs old new (c1, node1) = ((c', node'), threw)"
      using Cons.prems(1) Inr cn1 by simp
    note ih = Cons.IH [OF rest]
    from rebind_Inr [OF Inr [unfolded cn1]] show ?thesis
    proof
      assume "c1 = c \<and> node1 = node \<and> get_binding b0 node \<noteq> Some (Val old)"
      then show ?thesis using ih Cons.prems(2) by simp
    next
      assume s: "c1 = Suc c \<and> node1 = set_binding b0 new node
                 \<and> get_binding b0 node = Some (Val old)"
      show ?thesis
      proof (cases "b = b0")
        case True
        have "get_binding b node' = Some (Val new)"
        proof (cases "get_binding b node' = get_binding b node1")
          case True
          then show ?thesis using s \<open>b = b0\<close> by (simp add: get_set_binding)
        next
          case False
          then show ?thesis using ih by simp
        qed
        then show ?thesis using s True by simp
      next
        case False
        then have "get_binding b node1 = get_binding b node"
          using s by (simp add: get_set_binding)
        then show ?thesis using ih Cons.prems(2) by simp
      qed
    qed
  qed
qed




lemma rebind_all_none_left:
  assumes "rebind_all hst bs old new (c, node) = ((c', node'), False)"
    and "old \<noteq> new" and "b \<in> set bs"
  shows "get_binding b node' \<noteq> Some (Val old)"
  using assms
proof (induction bs arbitrary: c node)
  case Nil
  then show ?case by simp
next
  case (Cons b0 bs)
  show ?case
  proof (cases "rebind hst b0 old new (c, node)")
    case (Inl cn1)
    then show ?thesis using Cons.prems(1) by simp
  next
    case (Inr cn1)
    obtain c1 node1 where cn1: "cn1 = (c1, node1)" by (cases cn1)
    have rest: "rebind_all hst bs old new (c1, node1) = ((c', node'), False)"
      using Cons.prems(1) Inr cn1 by simp
    show ?thesis
    proof (cases "b \<in> set bs")
      case True
      then show ?thesis by (rule Cons.IH [OF rest Cons.prems(2)])
    next
      case False
      then have b: "b = b0" using Cons.prems(3) by simp
      have n1: "get_binding b0 node1 \<noteq> Some (Val old)"
        using rebind_Inr [OF Inr [unfolded cn1]] Cons.prems(2)
        by (auto simp: get_set_binding)
      show ?thesis
      proof (cases "get_binding b0 node' = get_binding b0 node1")
        case True
        then show ?thesis using n1 b by simp
      next
        case False
        then show ?thesis
          using rebind_all_only_old_to_new [OF rest, of b0] Cons.prems(2) b by simp
      qed
    qed
  qed
qed

lemma rebind_all_no_match:
  assumes "\<forall>b \<in> set bs. get_binding b node \<noteq> Some (Val old)"
  shows "rebind_all hst bs old new (c, node) = ((c, node), False)"
  using assms by (induction bs) (simp_all add: rebind_no_match)




text \<open>The \<^verbatim>\<open>try\<close> block of \<^verbatim>\<open>swapStyle\<close> on one node.\<close>

lemma swap_layer_only_old_to_new:
  assumes "swap_layer hst old new ty (c, node) = ((c', node'), threw)"
    and "get_binding b node' \<noteq> get_binding b node"
  shows "get_binding b node = Some (Val old) \<and> get_binding b node' = Some (Val new)
         \<and> b \<in> set (kind_bindings ty)"
proof -
  have r: "rebind_all hst (kind_bindings ty) old new (c, node) = ((c', node'), threw)"
    using assms(1) by (simp add: swap_layer_rebind_all)
  show ?thesis by (rule rebind_all_only_old_to_new [OF r assms(2)])
qed


lemma swap_layer_none_left:
  assumes "swap_layer hst old new ty (c, node) = ((c', node'), False)" and "old \<noteq> new"
    and "b \<in> set (kind_bindings ty)"
  shows "get_binding b node' \<noteq> Some (Val old)"
proof -
  have r: "rebind_all hst (kind_bindings ty) old new (c, node) = ((c', node'), False)"
    using assms(1) by (simp add: swap_layer_rebind_all)
  show ?thesis by (rule rebind_all_none_left [OF r assms(2,3)])
qed

lemma swap_layer_no_match:
  assumes "\<forall>b \<in> set (kind_bindings ty). get_binding b node \<noteq> Some (Val old)"
  shows "swap_layer hst old new ty (c, node) = ((c, node), False)"
  unfolding swap_layer_rebind_all by (rule rebind_all_no_match [OF assms])

section \<open>The rebinding loop\<close>

lemma loop_unresolved:
  "getNodeByIdAsync d i = None \<Longrightarrow>
     swapStyle_loop hst (i # ids) old new ty (c, d, errs) =
     swapStyle_loop hst ids old new ty (c, d, errs)"
  by simp

lemma loop_resolved:
  assumes "getNodeByIdAsync d i = Some node"
    and "swap_layer hst old new ty (c, node) = ((c1, node1), threw)"
  shows "swapStyle_loop hst (i # ids) old new ty (c, d, errs) =
     swapStyle_loop hst ids old new ty
       (c1, d\<lparr>getNodeByIdAsync := (getNodeByIdAsync d)(i \<mapsto> node1)\<rparr>,
        if threw then errs @ [i] else errs)"
  using assms by simp

lemma binding_at_update:
  "binding_at (d\<lparr>getNodeByIdAsync := (getNodeByIdAsync d)(i \<mapsto> node1)\<rparr>) j b =
     (if j = i then Some (get_binding b node1) else binding_at d j b)"
  by (simp add: binding_at_def)

lemma binding_at_resolved:
  "getNodeByIdAsync d i = Some node \<Longrightarrow> binding_at d i b = Some (get_binding b node)"
  by (simp add: binding_at_def)

lemma loop_errs_extend:
  "swapStyle_loop hst ids old new ty (c, d, errs) = (c', d', errs') \<Longrightarrow> \<exists>es. errs' = errs @ es"
proof (induction ids arbitrary: c d errs)
  case Nil
  then show ?case by simp
next
  case (Cons i ids)
  show ?case
  proof (cases "getNodeByIdAsync d i")
    case None
    then show ?thesis using Cons by simp
  next
    case (Some node)
    obtain c1 node1 threw where s: "swap_layer hst old new ty (c, node) = ((c1, node1), threw)"
      by (metis surj_pair)
    from Cons.prems have "\<exists>es. errs' = (if threw then errs @ [i] else errs) @ es"
      unfolding loop_resolved [OF Some s] by (rule Cons.IH)
    then show ?thesis by (cases threw) auto
  qed
qed

lemma loop_resolves_same:
  "swapStyle_loop hst ids old new ty (c, d, errs) = (c', d', errs') \<Longrightarrow>
     (getNodeByIdAsync d' j = None) = (getNodeByIdAsync d j = None)
     \<and> createdStyles d' = createdStyles d"
proof (induction ids arbitrary: c d errs)
  case Nil
  then show ?case by simp
next
  case (Cons i ids)
  show ?case
  proof (cases "getNodeByIdAsync d i")
    case None
    then show ?thesis using Cons by simp
  next
    case (Some node)
    obtain c1 node1 threw where s: "swap_layer hst old new ty (c, node) = ((c1, node1), threw)"
      by (metis surj_pair)
    from Cons.prems
    have "(getNodeByIdAsync d' j = None) =
            (getNodeByIdAsync (d\<lparr>getNodeByIdAsync := (getNodeByIdAsync d)(i \<mapsto> node1)\<rparr>) j = None)
          \<and> createdStyles d' =
            createdStyles (d\<lparr>getNodeByIdAsync := (getNodeByIdAsync d)(i \<mapsto> node1)\<rparr>)"
      unfolding loop_resolved [OF Some s] by (rule Cons.IH)
    then show ?thesis using Some by auto
  qed
qed

lemma loop_only_old_to_new:
  assumes "swapStyle_loop hst ids old new ty (c, d, errs) = (c', d', errs')"
    and "binding_at d' j b \<noteq> binding_at d j b"
  shows "j \<in> set ids \<and> b \<in> set (kind_bindings ty)
         \<and> binding_at d j b = Some (Some (Val old))
         \<and> binding_at d' j b = Some (Some (Val new))"
  using assms
proof (induction ids arbitrary: c d errs)
  case Nil
  then show ?case by simp
next
  case (Cons i ids)
  show ?case
  proof (cases "getNodeByIdAsync d i")
    case None
    then show ?thesis using Cons by simp
  next
    case (Some node)
    obtain c1 node1 threw where s: "swap_layer hst old new ty (c, node) = ((c1, node1), threw)"
      by (metis surj_pair)
    let ?d1 = "d\<lparr>getNodeByIdAsync := (getNodeByIdAsync d)(i \<mapsto> node1)\<rparr>"
    have rest: "swapStyle_loop hst ids old new ty
                  (c1, ?d1, if threw then errs @ [i] else errs) = (c', d', errs')"
      using Cons.prems(1) unfolding loop_resolved [OF Some s] .
    note ih = Cons.IH [OF rest]
    show ?thesis
    proof (cases "binding_at ?d1 j b = binding_at d j b")
      case True
      then show ?thesis using ih Cons.prems(2) by simp
    next
      case False
      then have j: "j = i" and ne: "get_binding b node1 \<noteq> get_binding b node"
        using Some by (auto simp: binding_at_update binding_at_resolved split: if_splits)
      note st = swap_layer_only_old_to_new [OF s ne]
      have d1: "binding_at ?d1 j b = Some (Some (Val new))"
        using st j by (simp add: binding_at_update)
      have "binding_at d' j b = Some (Some (Val new))"
      proof (cases "binding_at d' j b = binding_at ?d1 j b")
        case True
        then show ?thesis using d1 by simp
      next
        case False
        then show ?thesis using ih by simp
      qed
      then show ?thesis using st j Some by (simp add: binding_at_resolved)
    qed
  qed
qed

lemma loop_no_match:
  assumes "\<forall>j \<in> set ids. \<forall>b \<in> set (kind_bindings ty). binding_at d j b \<noteq> Some (Some (Val old))"
  shows "swapStyle_loop hst ids old new ty (c, d, errs) = (c, d, errs)"
  using assms
proof (induction ids)
  case Nil
  show ?case by simp
next
  case (Cons i ids)
  show ?case
  proof (cases "getNodeByIdAsync d i")
    case None
    then show ?thesis using Cons by simp
  next
    case (Some node)
    have "\<forall>b \<in> set (kind_bindings ty). get_binding b node \<noteq> Some (Val old)"
      using Cons.prems Some by (simp add: binding_at_resolved)
    then have s: "swap_layer hst old new ty (c, node) = ((c, node), False)"
      by (rule swap_layer_no_match)
    have "d\<lparr>getNodeByIdAsync := (getNodeByIdAsync d)(i \<mapsto> node)\<rparr> = d"
      using Some by (simp add: map_upd_triv)
    then show ?thesis
      using Cons unfolding loop_resolved [OF Some s] by simp
  qed
qed

lemma loop_none_left:
  assumes "swapStyle_loop hst ids old new ty (c, d, errs) = (c', d', errs)"
    and "old \<noteq> new" and "j \<in> set ids" and "b \<in> set (kind_bindings ty)"
  shows "binding_at d' j b \<noteq> Some (Some (Val old))"
  using assms
proof (induction ids arbitrary: c d)
  case Nil
  then show ?case by simp
next
  case (Cons i ids)
  show ?case
  proof (cases "getNodeByIdAsync d i")
    case None
    have rest: "swapStyle_loop hst ids old new ty (c, d, errs) = (c', d', errs)"
      using Cons.prems(1) None by simp
    show ?thesis
    proof (cases "j \<in> set ids")
      case True
      then show ?thesis using Cons.IH [OF rest Cons.prems(2)] Cons.prems(4) by simp
    next
      case False
      then have "j = i" using Cons.prems(3) by simp
      then have "getNodeByIdAsync d' j = None"
        using loop_resolves_same [OF rest, of j] None by simp
      then show ?thesis by (simp add: binding_at_def)
    qed
  next
    case (Some node)
    obtain c1 node1 threw where s: "swap_layer hst old new ty (c, node) = ((c1, node1), threw)"
      by (metis surj_pair)
    let ?d1 = "d\<lparr>getNodeByIdAsync := (getNodeByIdAsync d)(i \<mapsto> node1)\<rparr>"
    have rest0: "swapStyle_loop hst ids old new ty
                  (c1, ?d1, if threw then errs @ [i] else errs) = (c', d', errs)"
      using Cons.prems(1) unfolding loop_resolved [OF Some s] .
    have nt: "\<not> threw"
      using loop_errs_extend [OF rest0] by (cases threw) auto
    then have rest: "swapStyle_loop hst ids old new ty (c1, ?d1, errs) = (c', d', errs)"
      using rest0 by simp
    show ?thesis
    proof (cases "j \<in> set ids")
      case True
      then show ?thesis using Cons.IH [OF rest Cons.prems(2)] Cons.prems(4) by simp
    next
      case False
      then have j: "j = i" using Cons.prems(3) by simp
      have s': "swap_layer hst old new ty (c, node) = ((c1, node1), False)"
        using s nt by simp
      have n1: "binding_at ?d1 j b \<noteq> Some (Some (Val old))"
        using swap_layer_none_left [OF s' Cons.prems(2) Cons.prems(4)] j
        by (simp add: binding_at_update)
      show ?thesis
      proof (cases "binding_at d' j b = binding_at ?d1 j b")
        case True
        then show ?thesis using n1 by simp
      next
        case False
        then show ?thesis using loop_only_old_to_new [OF rest False] Cons.prems(2) by simp
      qed
    qed
  qed
qed







section \<open>What a rebind changes and counts\<close>





lemma sample_swap:
  "swapStyle accepting_host sample_document [''1:2'', ''9:9'', ''1:4''] ''S:999'' ''S:111'' ''FILL'' =
     (3, swapped_document, [])"
  by (simp add: swapStyle_def swap_layer_def rebind_def sample_document_def accepting_host_def
      swapped_document_def rect_node_def box_node_def frame_node_def plain_node_def)








text \<open>
  C4: when the old and the new identifier differ and a rebind logged no error, the same
  rebind on the document it left changes nothing and returns 0.
\<close>

theorem swapStyle_twice:
  assumes "old \<noteq> new" and "swapStyle hst d layerIds old new ty = (count, d', [])"
  shows "swapStyle hst d' layerIds old new ty = (0, d', [])"
proof -
  have l: "swapStyle_loop hst layerIds old new ty (0, d, []) = (count, d', [])"
    using assms(2) by (simp add: swapStyle_def)
  have "\<forall>j \<in> set layerIds. \<forall>b \<in> set (kind_bindings ty).
          binding_at d' j b \<noteq> Some (Some (Val old))"
    using loop_none_left [OF l assms(1)] by blast
  then have "swapStyle_loop hst layerIds old new ty (0, d', []) = (0, d', [])"
    by (rule loop_no_match)
  then show ?thesis by (simp add: swapStyle_def)
qed

theorem swapStyle_twice_witness:
  "''S:999'' \<noteq> ''S:111''
   \<and> swapStyle accepting_host sample_document [''1:2'', ''9:9'', ''1:4''] ''S:999'' ''S:111'' ''FILL'' =
       (3, swapped_document, [])
   \<and> swapStyle accepting_host swapped_document [''1:2'', ''9:9'', ''1:4''] ''S:999'' ''S:111'' ''FILL'' =
       (0, swapped_document, [])"
proof -
  have ne: "''S:999'' \<noteq> ''S:111''" by simp
  show ?thesis using swapStyle_twice [OF ne sample_swap] sample_swap ne by blast
qed

text \<open>
  With the new identifier equal to the old one the first call sets both bindings of the
  rectangle and logs no error, and the second call counts them again.
\<close>

theorem swapStyle_twice_counterexample:
  "fst (swapStyle accepting_host sample_document [''1:2''] ''S:999'' ''S:999'' ''FILL'') = 2
   \<and> snd (snd (swapStyle accepting_host sample_document [''1:2''] ''S:999'' ''S:999'' ''FILL'')) = []
   \<and> fst (swapStyle accepting_host
            (fst (snd (swapStyle accepting_host sample_document [''1:2''] ''S:999'' ''S:999'' ''FILL'')))
            [''1:2''] ''S:999'' ''S:999'' ''FILL'') = 2"
  by (simp add: swapStyle_def swap_layer_def rebind_def sample_document_def accepting_host_def
      rect_node_def plain_node_def)

section \<open>A node whose fill and stroke hold the same style\<close>

lemma map_step_kind:
  assumes "\<forall>info. map_of m sid = Some info \<longrightarrow> styleType info = ty0"
    and "sid \<in> set (ref_ids r) \<longrightarrow> snd (snd r) = ty0"
  shows "\<forall>info. map_of (map_step h r m) sid = Some info \<longrightarrow> styleType info = ty0"
proof -
  obtain node v ty where r: "r = (node, v, ty)" by (cases r)
  show ?thesis using assms
    by (cases v) (auto simp: r record_layer_map_of split: option.splits if_splits)
qed

lemma fold_map_step_kind:
  assumes "\<forall>info. map_of m sid = Some info \<longrightarrow> styleType info = ty0"
    and "\<forall>r \<in> set rs. sid \<in> set (ref_ids r) \<longrightarrow> snd (snd r) = ty0"
  shows "\<forall>info. map_of (fold (map_step h) rs m) sid = Some info \<longrightarrow> styleType info = ty0"
  using assms
proof (induction rs arbitrary: m)
  case Nil
  then show ?case by simp
next
  case (Cons r rs)
  have "\<forall>info. map_of (map_step h r m) sid = Some info \<longrightarrow> styleType info = ty0"
    by (rule map_step_kind) (use Cons.prems in simp_all)
  then have "\<forall>info. map_of (fold (map_step h) rs (map_step h r m)) sid = Some info
               \<longrightarrow> styleType info = ty0"
    by (rule Cons.IH) (use Cons.prems in simp)
  then show ?case by simp
qed

lemma ref_ids_mem: "sid \<in> set (ref_ids (n, v, ty)) \<longleftrightarrow> v = Val sid"
  by (cases v) auto

lemma reported_layer_occurrences:
  assumes "distinct (map node_id (nodes_of_children (currentPage_children h)))"
    and "info \<in> set (findLayersWithRemoteStyles h)"
    and "node \<in> set (nodes_of_children (currentPage_children h))"
  shows "count_list (map layer_id (layers info)) (node_id node) = occurrences (styleId info) node"
  by (simp add: reported_layer_count [OF assms(2)] sum_at_distinct_id [OF assms(1) assms(3)])

lemma node_refs_paint_only:
  assumes "r \<in> set (node_refs n)" and "sid \<in> set (ref_ids r)"
    and "textStyleId n \<noteq> Some (Val sid)" and "effectStyleId n \<noteq> Some (Val sid)"
    and "gridStyleId n \<noteq> Some (Val sid)"
  shows "snd (snd r) = FILL"
  using assms
  by (auto simp: node_refs_def binding_ref_def ref_ids_mem split: option.splits if_splits)

lemma occurrences_fill_stroke:
  assumes "fillStyleId node = Some (Val sid)" and "strokeStyleId node = Some (Val sid)"
    and "textStyleId node \<noteq> Some (Val sid)" and "effectStyleId node \<noteq> Some (Val sid)"
    and "gridStyleId node \<noteq> Some (Val sid)"
  shows "occurrences sid node = 2"
  using assms by (simp add: occurrences_def all_bindings_def)

lemma swapStyle_fill_and_stroke:
  assumes "getNodeByIdAsync d i = Some node"
    and "fillStyleId node = Some (Val old)" and "strokeStyleId node = Some (Val old)"
    and "setStyleIdOk hst FillB node new"
    and "setStyleIdOk hst StrokeB (set_binding FillB new node) new"
  shows "fst (swapStyle hst d [i] old new ''FILL'') = 2"
  using assms by (simp add: swapStyle_def swap_layer_def rebind_def)

text \<open>
  C1: let a node of the page hold the same identifier in its fill and in its stroke
  binding, the identifier classify as remote or unresolvable, and the document use it
  for fills and strokes only, with distinct node ids. Then a scan reports an entry for
  the identifier, of kind Fill, in whose layers the node is recorded twice, once for
  each binding; and a rebind of that layer with the identifier as the old one and kind
  Fill, whose two setters the host accepts, returns 2 for this one node.
\<close>

theorem fill_and_stroke_recorded_twice:
  assumes "distinct (map node_id (nodes_of_children (currentPage_children h)))"
    and "node \<in> set (nodes_of_children (currentPage_children h))"
    and "fillStyleId node = Some (Val sid)" and "strokeStyleId node = Some (Val sid)"
    and "sid \<noteq> []" and "nonlocal h sid"
    and "\<forall>n \<in> set (nodes_of_children (currentPage_children h)).
           textStyleId n \<noteq> Some (Val sid) \<and> effectStyleId n \<noteq> Some (Val sid)
           \<and> gridStyleId n \<noteq> Some (Val sid)"
    and "getNodeByIdAsync d (node_id node) = Some node"
    and "setStyleIdOk hst FillB node new"
    and "setStyleIdOk hst StrokeB (set_binding FillB new node) new"
  shows "\<exists>info. info \<in> set (findLayersWithRemoteStyles h) \<and> styleId info = sid
           \<and> styleType info = FILL
           \<and> count_list (map layer_id (layers info)) (node_id node) = 2
           \<and> fst (swapStyle hst d [node_id node] sid new ''FILL'') = 2"
proof -
  let ?rs = "refs_children (currentPage_children h)"
  have r: "(node, Val sid, binding_kind FillB) \<in> set ?rs"
    by (rule page_refs_mem [OF assms(2) _ assms(5)]) (simp add: assms(3))
  obtain info where i: "(sid, info) \<in> set (remoteStylesMap (scan h))"
    using scan_entry_exists [OF style_refs_mem [OF r] assms(6)] by blast
  have k: "styleId info = sid" by (rule scan_entry_key(1) [OF i])
  have rep: "info \<in> set (findLayersWithRemoteStyles h)"
    using i k by (simp add: reported_entry)
  have "\<forall>r \<in> set ?rs. sid \<in> set (ref_ids r) \<longrightarrow> snd (snd r) = FILL"
    using assms(7) by (auto simp: refs_nodes(2) intro: node_refs_paint_only)
  then have "\<forall>info. map_of (fold (map_step h) ?rs []) sid = Some info \<longrightarrow> styleType info = FILL"
    by (intro fold_map_step_kind) simp_all
  then have ty: "styleType info = FILL"
    using scan_entry_key(4) [OF i] by (simp add: scan_map)
  have "occurrences sid node = 2"
    by (rule occurrences_fill_stroke) (use assms(2,3,4,7) in auto)
  then have cnt: "count_list (map layer_id (layers info)) (node_id node) = 2"
    using reported_layer_occurrences [OF assms(1) rep assms(2)] k by simp
  have "fst (swapStyle hst d [node_id node] sid new ''FILL'') = 2"
    by (rule swapStyle_fill_and_stroke [OF assms(8) assms(3) assms(4) assms(9) assms(10)])
  then show ?thesis using rep k ty cnt by blast
qed


theorem fill_and_stroke_recorded_twice_witness:
  "\<exists>info. info \<in> set (findLayersWithRemoteStyles orphan_page) \<and> styleId info = ''S:999''
      \<and> styleType info = FILL
      \<and> count_list (map layer_id (layers info)) (node_id rect_node) = 2
      \<and> fst (swapStyle accepting_host sample_document [node_id rect_node]
                ''S:999'' ''S:111'' ''FILL'') = 2"
proof -
  have nodes: "nodes_of_children (currentPage_children orphan_page) = [rect_node]"
    by (simp add: orphan_page_def)
  have 1: "distinct (map node_id (nodes_of_children (currentPage_children orphan_page)))"
    by (simp add: nodes)
  have 2: "rect_node \<in> set (nodes_of_children (currentPage_children orphan_page))"
    by (simp add: nodes)
  have 3: "fillStyleId rect_node = Some (Val ''S:999'')"
    and 4: "strokeStyleId rect_node = Some (Val ''S:999'')"
    by (simp_all add: rect_node_def plain_node_def)
  have 5: "''S:999'' \<noteq> []" by simp
  have 6: "nonlocal orphan_page ''S:999''"
    by (simp add: nonlocal_def classify_def orphan_page_def)
  have 7: "\<forall>n \<in> set (nodes_of_children (currentPage_children orphan_page)).
           textStyleId n \<noteq> Some (Val ''S:999'') \<and> effectStyleId n \<noteq> Some (Val ''S:999'')
           \<and> gridStyleId n \<noteq> Some (Val ''S:999'')"
    by (simp add: nodes rect_node_def plain_node_def)
  have 8: "getNodeByIdAsync sample_document (node_id rect_node) = Some rect_node"
    by (simp add: sample_document_def rect_node_def plain_node_def)
  have 9: "setStyleIdOk accepting_host FillB rect_node ''S:111''"
    and 10: "setStyleIdOk accepting_host StrokeB (set_binding FillB ''S:111'' rect_node) ''S:111''"
    by (simp_all add: accepting_host_def)
  show ?thesis
    by (rule fill_and_stroke_recorded_twice [OF 1 2 3 4 5 6 7 8 9 10])
qed

lemma sample_page_local_styles:
  "getLocalStyles sample_page = [\<lparr>local_id = ''S:111'', local_name = ''Brand'', local_type = FILL\<rparr>]"
  by (simp add: getLocalStyles_def push_local_def sample_page_def)

section \<open>Two scans in a row\<close>

lemma run_report:
  "fst (findLayersWithRemoteStyles_run h st) = findLayersWithRemoteStyles h"
proof -
  have "remoteStylesMap (traverse_children h (currentPage_children h) (st\<lparr>remoteStylesMap := []\<rparr>))
        = fold (map_step h) (refs_children (currentPage_children h)) []"
    by (simp add: traverse_fold(2) fold_run_ref_map)
  then show ?thesis
    by (simp add: findLayersWithRemoteStyles_run_def Let_def findLayersWithRemoteStyles_def scan_map)
qed

lemma run_catalogue: "fst (getLocalStyles_run h styles_before) = getLocalStyles h"
  by (simp add: getLocalStyles_run_def getLocalStyles_def Let_def)

lemma scan_message_posts:
  "ui_messages (scan_message s) = ui_messages s @ [scan_result (figma_state s)]"
  and scan_message_document: "figma_state (scan_message s) = figma_state s"
proof -
  obtain rr vars where r: "findLayersWithRemoteStyles_run (figma_state s) (scan_vars s) = (rr, vars)"
    by (metis surj_pair)
  obtain loc styles where l: "getLocalStyles_run (figma_state s) (styles_var s) = (loc, styles)"
    by (metis surj_pair)
  have "rr = findLayersWithRemoteStyles (figma_state s)"
    using run_report [of "figma_state s" "scan_vars s"] r by simp
  moreover have "loc = getLocalStyles (figma_state s)"
    using run_catalogue [of "figma_state s" "styles_var s"] l by simp
  ultimately show "ui_messages (scan_message s) = ui_messages s @ [scan_result (figma_state s)]"
    using r l by (simp add: scan_message_def scan_result_def)
  show "figma_state (scan_message s) = figma_state s"
    using r l by (simp add: scan_message_def)
qed

text \<open>
  C7: whatever state the runs before have left, two scans in a row of a document post
  the same \<open>remoteStyles\<close> and \<open>localStyles\<close> reports, the reports of the document
  alone, and leave the document as it was: the working map and the array that the first
  run leaves are not read by the second.
\<close>

theorem scan_twice_same_reports:
  "ui_messages (scan_message (scan_message s)) =
     ui_messages s @ [scan_result (figma_state s), scan_result (figma_state s)]
   \<and> figma_state (scan_message (scan_message s)) = figma_state s"
  by (simp add: scan_message_posts scan_message_document)

lemma second_run_starts_from_first:
  "scan_vars (scan_message s) =
     traverse_children (figma_state s) (currentPage_children (figma_state s))
       ((scan_vars s)\<lparr>remoteStylesMap := []\<rparr>)"
  by (simp add: scan_message_def findLayersWithRemoteStyles_run_def getLocalStyles_run_def Let_def)

lemma scan_message_map:
  "remoteStylesMap (scan_vars (scan_message s)) = remoteStylesMap (scan (figma_state s))"
  by (simp add: second_run_starts_from_first traverse_fold(2) fold_run_ref_map scan_map)

lemma stale_session_left:
  "remoteStylesMap (scan_vars stale_session) \<noteq> []
   \<and> remoteStylesMap (scan_vars (scan_message stale_session)) \<noteq> []"
proof -
  have "map snd (remoteStylesMap (scan sample_page)) \<noteq> []"
    using sample_page_report by (simp add: findLayersWithRemoteStyles_def)
  then have "remoteStylesMap (scan_vars (scan_message stale_session)) \<noteq> []"
    by (auto simp: scan_message_map stale_session_def)
  then show ?thesis by (simp add: stale_session_def)
qed

theorem scan_twice_same_reports_witness:
  "remoteStylesMap (scan_vars (scan_message stale_session)) \<noteq> []
   \<and> ui_messages (scan_message (scan_message stale_session)) =
       [scan_result sample_page, scan_result sample_page]
   \<and> scan_result sample_page =
       \<lparr>remoteStyles =
          [sample_entry,
           \<lparr>styleId = ''S:777'', styleName = ''Heading'', styleType = TEXT,
            layers = [\<lparr>layer_id = ''1:3'', layer_name = ''Title'', layer_type = ''TEXT''\<rparr>]\<rparr>],
        localStyles = [\<lparr>local_id = ''S:111'', local_name = ''Brand'', local_type = FILL\<rparr>]\<rparr>"
proof -
  have d: "figma_state stale_session = sample_page" and u: "ui_messages stale_session = []"
    by (simp_all add: stale_session_def)
  have m: "ui_messages (scan_message (scan_message stale_session)) =
       [scan_result sample_page, scan_result sample_page]"
    using scan_twice_same_reports [of stale_session] by (simp add: d u)
  have r: "scan_result sample_page =
       \<lparr>remoteStyles =
          [sample_entry,
           \<lparr>styleId = ''S:777'', styleName = ''Heading'', styleType = TEXT,
            layers = [\<lparr>layer_id = ''1:3'', layer_name = ''Title'', layer_type = ''TEXT''\<rparr>]\<rparr>],
        localStyles = [\<lparr>local_id = ''S:111'', local_name = ''Brand'', local_type = FILL\<rparr>]\<rparr>"
    by (simp add: scan_result_def sample_page_report sample_page_local_styles)
  show ?thesis using stale_session_left m r by blast
qed

section \<open>Materialising a style: what holds\<close>

lemma try_import_not_qualified:
  assumes "\<not> qualifies ty node"
  shows "try_import hst ty sname node nd = (Next, nd)"
proof -
  consider "ty = ''FILL''" | "ty = ''TEXT''" | "ty = ''EFFECT''" | "ty = ''GRID''"
    | "ty \<noteq> ''FILL''" "ty \<noteq> ''TEXT''" "ty \<noteq> ''EFFECT''" "ty \<noteq> ''GRID''"
    by blast
  then show ?thesis
  proof cases
    case 1
    then have "fills node = None \<or> fills node = Some Mixed"
      using assms by (auto simp: qualifies_def split: option.splits mixable.splits)
    then show ?thesis using 1 by (auto simp: try_import_def)
  next
    case 2
    show ?thesis
    proof (cases "node_type node = ''TEXT''")
      case False
      then show ?thesis using 2 by (simp add: try_import_def)
    next
      case True
      then have "fontSize node = Mixed \<or> fontName node = Mixed \<or> lineHeight node = Mixed
                 \<or> letterSpacing node = Mixed \<or> textCase node = Mixed
                 \<or> textDecoration node = Mixed"
        using assms 2 by (simp add: qualifies_def)
      then show ?thesis using 2 True by (auto simp: try_import_def split: mixable.splits)
    qed
  next
    case 3
    then have "effects node = None" using assms by (simp add: qualifies_def)
    then show ?thesis using 3 by (simp add: try_import_def)
  next
    case 4
    then have "layoutGrids node = None" using assms by (simp add: qualifies_def)
    then show ?thesis using 4 by (simp add: try_import_def)
  next
    case 5
    then show ?thesis by (simp add: try_import_def)
  qed
qed

lemma import_loop_no_donor:
  assumes "\<forall>i \<in> set ids. \<forall>node. getNodeByIdAsync d i = Some node \<longrightarrow> \<not> qualifies ty node"
  shows "import_loop hst ids ty sname (newStyle, d, errs) = (newStyle, d, errs)"
  using assms
proof (induction ids)
  case Nil
  show ?case by simp
next
  case (Cons i ids)
  show ?case
  proof (cases "getNodeByIdAsync d i")
    case None
    then show ?thesis using Cons by simp
  next
    case (Some node)
    then have "\<not> qualifies ty node" using Cons.prems by simp
    then show ?thesis using Some Cons by (simp add: try_import_not_qualified)
  qed
qed

text \<open>
  When no listed layer qualifies as a donor, no style is created, nothing is rebound and
  the call returns 0.
\<close>

lemma importRemoteStyle_no_donor:
  assumes "\<forall>i \<in> set ids. \<forall>node. getNodeByIdAsync d i = Some node \<longrightarrow> \<not> qualifies ty node"
  shows "importRemoteStyle hst d ids ty sname old = (0, d, [])"
  by (simp add: importRemoteStyle_def import_loop_no_donor [OF assms])

text \<open>
  When the loop leaves \<^verbatim>\<open>newStyle\<close> set, the rebind runs over the whole list of layer ids
  with the identifier of that style.
\<close>

lemma importRemoteStyle_rebinds_all:
  assumes "import_loop hst ids ty sname (None, d, []) = (Some sid, d1, errs)"
    and "swapStyle hst d1 ids old sid ty = (count, d2, errs2)"
  shows "importRemoteStyle hst d ids ty sname old = (count, d2, errs @ errs2)"
  using assms by (simp add: importRemoteStyle_def)

lemma set_prop_length: "length (createdStyles (set_prop p v d)) = length (createdStyles d)"
proof (cases "rev (createdStyles d)")
  case Nil
  then show ?thesis by (simp add: set_prop_def)
next
  case (Cons s before)
  have "length (createdStyles d) = length (rev (createdStyles d))" by simp
  also have "\<dots> = Suc (length before)" by (simp only: Cons) simp
  finally show ?thesis using Cons by (simp add: set_prop_def)
qed

lemma assign_all_length:
  "assign_all hst ps d = (ok, d') \<Longrightarrow> length (createdStyles d') = length (createdStyles d)"
  by (induction ps arbitrary: d) (auto simp: set_prop_length split: if_splits)

lemma assign_all_accepted:
  "\<forall>p v. assignOk hst p v \<Longrightarrow> fst (assign_all hst ps d)"
  by (induction ps arbitrary: d) auto

text \<open>
  On a host that accepts every assignment to a style, the body of a branch either
  creates nothing and is caught, or creates one style and leaves the loop.
\<close>

lemma create_and_copy_accepted:
  assumes "\<forall>p v. assignOk hst p v"
    and "create_and_copy hst kind sname ps (newStyle, d) = (out, newStyle', d')"
  shows "(out = Caught \<and> d' = d \<and> newStyle' = newStyle)
       \<or> (out = Break \<and> length (createdStyles d') = Suc (length (createdStyles d)))"
proof (cases "createOk hst kind")
  case False
  then show ?thesis using assms(2) by (simp add: create_and_copy_def)
next
  case True
  obtain sid d1 where c: "createStyle hst kind d = (sid, d1)" by (cases "createStyle hst kind d")
  obtain ok d2 where a: "assign_all hst ((''name'', sname) # ps) d1 = (ok, d2)"
    by (cases "assign_all hst ((''name'', sname) # ps) d1")
  have "ok" using assign_all_accepted [OF assms(1), of "(''name'', sname) # ps" d1] a by simp
  moreover have "length (createdStyles d1) = Suc (length (createdStyles d))"
    using c by (auto simp: createStyle_def Let_def)
  moreover have "length (createdStyles d2) = length (createdStyles d1)"
    by (rule assign_all_length [OF a])
  ultimately show ?thesis
    using assms(2) True c a by (simp add: create_and_copy_def)
qed

lemma not_Mixed: "x \<noteq> Mixed \<Longrightarrow> \<exists>y. x = Val y"
  by (cases x) simp_all

lemma try_import_qualified:
  assumes "qualifies ty node"
  shows "\<exists>kind ps. try_import hst ty sname node nd = create_and_copy hst kind sname ps nd"
proof -
  consider "ty = ''FILL''" | "ty = ''TEXT''" | "ty = ''EFFECT''" | "ty = ''GRID''"
    using assms by (auto simp: qualifies_def split: if_splits)
  then show ?thesis
  proof cases
    case 1
    then obtain paints where "fills node = Some (Val paints)"
      using assms by (auto simp: qualifies_def split: option.splits mixable.splits)
    then have "try_import hst ty sname node nd =
                 create_and_copy hst FILL sname [(''paints'', paints)] nd"
      using 1 by (simp add: try_import_def)
    then show ?thesis by (intro exI)
  next
    case 2
    then have q: "node_type node = ''TEXT''" "fontSize node \<noteq> Mixed" "fontName node \<noteq> Mixed"
      "lineHeight node \<noteq> Mixed" "letterSpacing node \<noteq> Mixed" "textCase node \<noteq> Mixed"
      "textDecoration node \<noteq> Mixed"
      using assms by (simp_all add: qualifies_def)
    obtain fs where fs: "fontSize node = Val fs" using not_Mixed [OF q(2)] by blast
    obtain fn where fn: "fontName node = Val fn" using not_Mixed [OF q(3)] by blast
    obtain lh where lh: "lineHeight node = Val lh" using not_Mixed [OF q(4)] by blast
    obtain ls where ls: "letterSpacing node = Val ls" using not_Mixed [OF q(5)] by blast
    obtain tc where tc: "textCase node = Val tc" using not_Mixed [OF q(6)] by blast
    obtain td where td: "textDecoration node = Val td" using not_Mixed [OF q(7)] by blast
    have "try_import hst ty sname node nd =
            create_and_copy hst TEXT sname
              [(''fontSize'', fs), (''fontName'', fn), (''lineHeight'', lh),
               (''letterSpacing'', ls), (''textCase'', tc), (''textDecoration'', td)] nd"
      using 2 q(1) by (simp add: try_import_def fs fn lh ls tc td)
    then show ?thesis by (intro exI)
  next
    case 3
    then obtain es where "effects node = Some es"
      using assms by (auto simp: qualifies_def)
    then have "try_import hst ty sname node nd =
                 create_and_copy hst EFFECT sname [(''effects'', es)] nd"
      using 3 by (simp add: try_import_def)
    then show ?thesis by (intro exI)
  next
    case 4
    then obtain gs where "layoutGrids node = Some gs"
      using assms by (auto simp: qualifies_def)
    then have "try_import hst ty sname node nd =
                 create_and_copy hst GRID sname [(''layoutGrids'', gs)] nd"
      using 4 by (simp add: try_import_def)
    then show ?thesis by (intro exI)
  qed
qed

lemma try_import_accepted:
  assumes "\<forall>p v. assignOk hst p v"
    and "try_import hst ty sname node (newStyle, d) = (out, newStyle', d')"
  shows "(out \<noteq> Break \<and> d' = d \<and> newStyle' = newStyle)
       \<or> (out = Break \<and> length (createdStyles d') = Suc (length (createdStyles d)))"
proof (cases "qualifies ty node")
  case False
  then show ?thesis using assms(2) by (simp add: try_import_not_qualified)
next
  case True
  then obtain kind ps where
    "try_import hst ty sname node (newStyle, d) = create_and_copy hst kind sname ps (newStyle, d)"
    using try_import_qualified by blast
  then have c: "create_and_copy hst kind sname ps (newStyle, d) = (out, newStyle', d')"
    using assms(2) by simp
  from create_and_copy_accepted [OF assms(1) c] show ?thesis by blast
qed

lemma import_loop_accepted:
  assumes "\<forall>p v. assignOk hst p v"
    and "import_loop hst ids ty sname (newStyle, d, errs) = (newStyle', d', errs')"
  shows "length (createdStyles d') \<le> Suc (length (createdStyles d))"
  using assms(2)
proof (induction ids arbitrary: errs)
  case Nil
  then show ?case by simp
next
  case (Cons i ids)
  show ?case
  proof (cases "getNodeByIdAsync d i")
    case None
    then show ?thesis using Cons by simp
  next
    case (Some node)
    obtain out n1 d1 where t: "try_import hst ty sname node (newStyle, d) = (out, n1, d1)"
      by (metis surj_pair)
    from try_import_accepted [OF assms(1) t] show ?thesis
    proof
      assume a: "out \<noteq> Break \<and> d1 = d \<and> n1 = newStyle"
      show ?thesis
      proof (cases out)
        case Break
        then show ?thesis using a by simp
      next
        case Next
        then have "import_loop hst ids ty sname (newStyle, d, errs) = (newStyle', d', errs')"
          using Cons.prems Some t a by simp
        then show ?thesis by (rule Cons.IH)
      next
        case Caught
        then have "import_loop hst ids ty sname (newStyle, d, errs @ [i]) = (newStyle', d', errs')"
          using Cons.prems Some t a by simp
        then show ?thesis by (rule Cons.IH)
      qed
    next
      assume b: "out = Break \<and> length (createdStyles d1) = Suc (length (createdStyles d))"
      then have "d' = d1" using Cons.prems Some t by simp
      then show ?thesis using b by simp
    qed
  qed
qed

text \<open>
  On a host that accepts every assignment to a style, a call creates at most one style.
\<close>

lemma importRemoteStyle_accepted:
  assumes "\<forall>p v. assignOk hst p v"
    and "importRemoteStyle hst d ids ty sname old = (count, d', errs)"
  shows "length (createdStyles d') \<le> Suc (length (createdStyles d))"
proof -
  obtain newStyle d1 errs1 where
    l: "import_loop hst ids ty sname (None, d, []) = (newStyle, d1, errs1)"
    by (metis surj_pair)
  have one: "length (createdStyles d1) \<le> Suc (length (createdStyles d))"
    by (rule import_loop_accepted [OF assms(1) l])
  show ?thesis
  proof (cases newStyle)
    case None
    then show ?thesis using assms(2) l one by (simp add: importRemoteStyle_def)
  next
    case (Some sid)
    obtain c2 d2 e2 where s: "swapStyle hst d1 ids old sid ty = (c2, d2, e2)"
      by (metis surj_pair)
    then have "swapStyle_loop hst ids old sid ty (0, d1, []) = (c2, d2, e2)"
      by (simp add: swapStyle_def)
    then have "createdStyles d2 = createdStyles d1"
      using loop_resolves_same by blast
    then show ?thesis using assms(2) l one Some s by (simp add: importRemoteStyle_def)
  qed
qed

text \<open>
  C3: a call that materialises a style is to create at most one new local style. Here
  both text layers qualify as donors and the host rejects their font. For each layer
  the style is created and named and its font size is set before the assignment of the
  font throws; the \<^verbatim>\<open>catch\<close> logs the error and the loop goes on with \<^verbatim>\<open>newStyle\<close> set. The
  call creates two styles, logs an error for both layers and rebinds both layers to the
  second style.
\<close>
theorem importRemoteStyle_creates_two_styles:
  "map new_id (createdStyles (fst (snd
       (importRemoteStyle font_host text_document [''2:1'', ''2:2''] ''TEXT'' ''Recovered'' ''S:777''))))
     = [''S:new1'', ''S:new2'']
   \<and> fst (importRemoteStyle font_host text_document [''2:1'', ''2:2''] ''TEXT'' ''Recovered'' ''S:777'')
     = 2
   \<and> snd (snd (importRemoteStyle font_host text_document [''2:1'', ''2:2''] ''TEXT'' ''Recovered'' ''S:777''))
     = [''2:1'', ''2:2'']"
  by (simp add: importRemoteStyle_def try_import_def create_and_copy_def createStyle_def
      set_prop_def swapStyle_def swap_layer_def rebind_def text_document_def font_host_def
      text_layer_def plain_node_def Let_def)

end
